theory Spec2Isabelle
  imports Main
begin

section \<open>The CSV file parser of chainer-chemistry\<close>

text \<open>
  A shallow embedding of \<^verbatim>\<open>chainer_chemistry/dataset/parsers/csv_file_parser.py\<close>:
  the class \<^verbatim>\<open>CSVFileParser\<close> with its methods \<^verbatim>\<open>parse\<close> and \<^verbatim>\<open>get_smiles\<close>.
  Everything the parser calls but does not define (pandas, RDKit, numpy, the preprocessor,
  the dataset container, the two post-processing callbacks) is a field of the record
  \<open>env\<close>; each such call may raise, so it returns \<open>exn + result\<close>.
\<close>

subsection \<open>Exceptions, values and the log\<close>

text \<open>
  The exception classes the parser can meet. \<open>NonException\<close> stands for a
  \<^verbatim>\<open>BaseException\<close> that is no \<^verbatim>\<open>Exception\<close> (\<^verbatim>\<open>KeyboardInterrupt\<close>, \<^verbatim>\<open>SystemExit\<close>):
  the clause \<^verbatim>\<open>except Exception\<close> does not catch it.
\<close>

datatype exn =
    MolFeatureExtractionError
  | AssertionError
  | AttributeError
  | IndexError
  | KeyError
  | TypeError
  | ValueError
  | OtherException string
  | NonException string

fun is_Exception :: "exn \<Rightarrow> bool" where
  "is_Exception (NonException _) = False"
| "is_Exception _ = True"

text \<open>What \<^verbatim>\<open>pp.get_input_features(mol)\<close> returns: a tuple of values, or one value.\<close>

datatype 'v input_features = Tuple "'v list" | Single 'v

fun arity :: "'v input_features \<Rightarrow> nat" where
  "arity (Tuple xs) = length xs"
| "arity (Single x) = 1"

text \<open>
  The objects stored in the accumulators: a feature value, the raw label list
  \<^verbatim>\<open>[row[i] for i in labels_index]\<close>, or what \<^verbatim>\<open>postprocess_label\<close> made of it.
\<close>

datatype ('c, 'v) obj = Feature 'v | RawLabels "'c list" | PostLabels 'v

fun is_label :: "('c, 'v) obj \<Rightarrow> bool" where
  "is_label (Feature _) = False"
| "is_label _ = True"

text \<open>
  The calls of the logger: the warning and the traceback of the generic handler, the
  summary line (FAIL, SUCCESS, TOTAL), and the warning of \<^verbatim>\<open>get_smiles\<close>.
\<close>

datatype log_entry =
    Warning_parse exn
  | Info_traceback exn
  | Info_finished nat nat nat
  | Warning_smiles_is_None

text \<open>
  A numpy array as the sequence of its entries along the leading axis; an entry of a
  fresh \<^verbatim>\<open>numpy.empty(n, dtype=numpy.ndarray)\<close> is \<open>None\<close>.
\<close>

datatype dtype = Inferred | ObjectDtype

datatype 'o ndarray = NDArray dtype "'o option list"

fun leading_dim :: "'o ndarray \<Rightarrow> nat" where
  "leading_dim (NDArray d xs) = length xs"

fun elems :: "'o ndarray \<Rightarrow> 'o option list" where
  "elems (NDArray d xs) = xs"

fun dtype_of :: "'o ndarray \<Rightarrow> dtype" where
  "dtype_of (NDArray d xs) = d"

text \<open>A value that is a tuple or not (\<^verbatim>\<open>isinstance(result, tuple)\<close>).\<close>

datatype 'a result = TupleResult "'a list" | NonTuple 'a

text \<open>The data frame: its column names and its rows (\<^verbatim>\<open>df.itertuples(index=False)\<close>).\<close>

record 'c table =
  columns :: "string list"
  rows :: "'c list list"

subsection \<open>The parser object and its collaborators\<close>

text \<open>
  The attributes of the parser that \<^verbatim>\<open>parse\<close> and \<^verbatim>\<open>get_smiles\<close> change:
  \<^verbatim>\<open>self.smiles\<close>, and what has been sent to \<^verbatim>\<open>self.logger\<close>.
\<close>

record parser =
  smiles :: "string list option"
  logged :: "log_entry list"

text \<open>The locals of the row loop of \<^verbatim>\<open>parse\<close>, on top of the parser's attributes.\<close>

record ('c, 'v) loop_state = parser +
  features :: "('c, 'v) obj list list option"
  fail_count :: nat
  success_count :: nat

text \<open>
  The configuration fixed by \<^verbatim>\<open>__init__\<close> (\<open>labels\<close>, \<open>smiles_col\<close>,
  \<open>postprocess_label\<close>, \<open>postprocess_fn\<close>, the preprocessor) and the library functions.
  \<open>asarray_raises xs\<close> is the exception of \<^verbatim>\<open>numpy.asarray(xs)\<close>, if it raises;
  \<open>iter_value\<close> is Python's iteration over a value that is no tuple.
\<close>

record ('c, 'm, 'v, 'd) env =
  is_MolPreprocessor :: bool
  labels :: "string list option"
  smiles_col :: string
  postprocess_label :: "('c list \<Rightarrow> exn + 'v) option"
  postprocess_fn ::
    "(('c, 'v) obj ndarray list \<Rightarrow> exn + ('c, 'v) obj ndarray result) option"
  read_csv :: "string \<Rightarrow> exn + 'c table"
  from_csv :: "string \<Rightarrow> exn + 'c table"
  MolFromSmiles :: "'c \<Rightarrow> exn + 'm option"
  prepare_smiles_and_mol :: "'m \<Rightarrow> exn + string \<times> 'm"
  get_input_features :: "'m \<Rightarrow> exn + 'v input_features"
  MolToSmiles :: "'m \<Rightarrow> exn + string"
  asarray_raises :: "('c, 'v) obj list \<Rightarrow> exn option"
  iter_value :: "('c, 'v) obj ndarray \<Rightarrow> exn + ('c, 'v) obj ndarray list"
  pp_process :: "string \<Rightarrow> exn + ('c, 'v) obj ndarray result"
  NumpyTupleDataset :: "('c, 'v) obj ndarray result list \<Rightarrow> exn + 'd"

text \<open>
  \<^verbatim>\<open>__init__\<close>: a single label name becomes a one-element list; \<^verbatim>\<open>self.smiles\<close>
  starts as \<^verbatim>\<open>None\<close>.
\<close>

datatype labels_arg = NoLabels | LabelName string | LabelNames "string list"

fun init_labels :: "labels_arg \<Rightarrow> string list option" where
  "init_labels NoLabels = None"
| "init_labels (LabelName l) = Some [l]"
| "init_labels (LabelNames ls) = Some ls"

definition init_parser :: "log_entry list \<Rightarrow> parser" where
  "init_parser lg = \<lparr>smiles = None, logged = lg\<rparr>"

subsection \<open>Indexing\<close>

text \<open>
  \<^verbatim>\<open>df.columns.get_loc(c)\<close>: the position of the column, \<^verbatim>\<open>KeyError\<close> when there is
  none (\<^verbatim>\<open>read_csv\<close> renames duplicated columns, so a name occurs once).
\<close>

fun get_loc :: "string list \<Rightarrow> string \<Rightarrow> exn + nat" where
  "get_loc [] c = Inl KeyError"
| "get_loc (x # xs) c =
     (if x = c then Inr 0
      else (case get_loc xs c of Inl e \<Rightarrow> Inl e | Inr i \<Rightarrow> Inr (Suc i)))"

fun get_locs :: "string list \<Rightarrow> string list \<Rightarrow> exn + nat list" where
  "get_locs cols [] = Inr []"
| "get_locs cols (c # cs) =
     (case get_loc cols c of
        Inl e \<Rightarrow> Inl e
      | Inr i \<Rightarrow> (case get_locs cols cs of Inl e \<Rightarrow> Inl e | Inr is \<Rightarrow> Inr (i # is)))"

text \<open>\<^verbatim>\<open>row[i]\<close> for an index that is not negative: \<^verbatim>\<open>IndexError\<close> out of range.\<close>

definition getitem :: "'a list \<Rightarrow> nat \<Rightarrow> exn + 'a" where
  "getitem xs i = (if i < length xs then Inr (xs ! i) else Inl IndexError)"

fun getitems :: "'a list \<Rightarrow> nat list \<Rightarrow> exn + 'a list" where
  "getitems xs [] = Inr []"
| "getitems xs (i # is) =
     (case getitem xs i of
        Inl e \<Rightarrow> Inl e
      | Inr x \<Rightarrow> (case getitems xs is of Inl e \<Rightarrow> Inl e | Inr ys \<Rightarrow> Inr (x # ys)))"

subsection \<open>The body of the \<^verbatim>\<open>try\<close> statement (lines 93 to 111)\<close>

text \<open>
  What the statements of the \<^verbatim>\<open>try\<close> block compute for one row, up to and including the
  \<^verbatim>\<open>assert\<close>: \<open>MolNone\<close> when \<^verbatim>\<open>Chem.MolFromSmiles\<close> returned \<^verbatim>\<open>None\<close>, \<open>Raised e\<close>
  when one of them raised, \<open>Completed\<close> with the standardized SMILES, the input features
  and the labels otherwise. None of these statements changes the state.
\<close>

datatype ('c, 'v) outcome =
    MolNone
  | Raised exn
  | Completed string "'v input_features" "('c, 'v) obj"

definition extract_label ::
  "('c, 'm, 'v, 'd) env \<Rightarrow> 'c list \<Rightarrow> exn + ('c, 'v) obj" where
  "extract_label E ls =
     (case postprocess_label E of
        None \<Rightarrow> Inr (RawLabels ls)
      | Some g \<Rightarrow> (case g ls of Inl e \<Rightarrow> Inl e | Inr v \<Rightarrow> Inr (PostLabels v)))"

definition check_smiles ::
  "('c, 'm, 'v, 'd) env \<Rightarrow> bool \<Rightarrow> string \<Rightarrow> 'm \<Rightarrow> exn option" where
  "check_smiles E retain_smiles standardized_smiles mol =
     (if retain_smiles then
        (case MolToSmiles E mol of
           Inl e \<Rightarrow> Some e
         | Inr s \<Rightarrow> if standardized_smiles = s then None else Some AssertionError)
      else None)"

definition try_block ::
  "('c, 'm, 'v, 'd) env \<Rightarrow> bool \<Rightarrow> 'c \<Rightarrow> 'c list \<Rightarrow> ('c, 'v) outcome" where
  "try_block E retain_smiles smi ls =
     (case MolFromSmiles E smi of
        Inl e \<Rightarrow> Raised e
      | Inr None \<Rightarrow> MolNone
      | Inr (Some mol0) \<Rightarrow>
          (case prepare_smiles_and_mol E mol0 of
             Inl e \<Rightarrow> Raised e
           | Inr (standardized_smiles, mol) \<Rightarrow>
               (case get_input_features E mol of
                  Inl e \<Rightarrow> Raised e
                | Inr input_features \<Rightarrow>
                    (case extract_label E ls of
                       Inl e \<Rightarrow> Raised e
                     | Inr lab \<Rightarrow>
                         (case check_smiles E retain_smiles standardized_smiles mol of
                            Some e \<Rightarrow> Raised e
                          | None \<Rightarrow> Completed standardized_smiles input_features lab)))))"

subsection \<open>The handlers and the accumulators (lines 112 to 143)\<close>

text \<open>
  The two \<^verbatim>\<open>except\<close> clauses: the recognized error is counted silently, any other
  \<^verbatim>\<open>Exception\<close> is logged and counted, anything else leaves the loop. An exception that
  leaves the loop takes the locals with it; the parser's attributes stay as they are.
\<close>

definition except_handler ::
  "('c, 'v) loop_state \<Rightarrow> exn \<Rightarrow> exn \<times> parser + ('c, 'v) loop_state" where
  "except_handler st e =
     (if e = MolFeatureExtractionError then Inr (st\<lparr>fail_count := fail_count st + 1\<rparr>)
      else if is_Exception e then
        Inr (st\<lparr>logged := logged st @ [Warning_parse e, Info_traceback e],
                fail_count := fail_count st + 1\<rparr>)
      else Inl (e, parser.truncate st))"

text \<open>\<^verbatim>\<open>features[i].append(x)\<close>, with the \<^verbatim>\<open>IndexError\<close> of \<^verbatim>\<open>features[i]\<close>.\<close>

definition append_at ::
  "'o list list \<Rightarrow> nat \<Rightarrow> 'o \<Rightarrow> exn + 'o list list" where
  "append_at fs i x =
     (if i < length fs then Inr (fs[i := fs ! i @ [x]]) else Inl IndexError)"

text \<open>\<^verbatim>\<open>for i in range(len(input_features)): features[i].append(input_features[i])\<close>,
  from index \<open>i\<close> on.\<close>

fun append_tuple ::
  "'o list list \<Rightarrow> nat \<Rightarrow> 'o list \<Rightarrow> exn + 'o list list" where
  "append_tuple fs i [] = Inr fs"
| "append_tuple fs i (x # xs) =
     (case append_at fs i x of
        Inl e \<Rightarrow> Inl e
      | Inr fs' \<Rightarrow> append_tuple fs' (Suc i) xs)"

text \<open>\<^verbatim>\<open>features[len(features) - 1].append(labels)\<close>: on an empty list the index is
  \<open>-1\<close>, which is out of range.\<close>

definition append_last :: "'o list list \<Rightarrow> 'o \<Rightarrow> exn + 'o list list" where
  "append_last fs x =
     (if fs = [] then Inl IndexError else append_at fs (length fs - 1) x)"

definition init_features ::
  "('c, 'm, 'v, 'd) env \<Rightarrow> 'v input_features \<Rightarrow> ('c, 'v) obj list list" where
  "init_features E input_features =
     replicate
       ((case input_features of Tuple xs \<Rightarrow> length xs | Single x \<Rightarrow> 1)
        + (if labels E \<noteq> None then 1 else 0)) []"

definition append_features ::
  "('c, 'm, 'v, 'd) env \<Rightarrow> ('c, 'v) obj list list \<Rightarrow> 'v input_features \<Rightarrow>
   ('c, 'v) obj \<Rightarrow> exn + ('c, 'v) obj list list" where
  "append_features E fs input_features lab =
     (case (case input_features of
              Tuple xs \<Rightarrow> append_tuple fs 0 (map Feature xs)
            | Single x \<Rightarrow> append_at fs 0 (Feature x)) of
        Inl e \<Rightarrow> Inl e
      | Inr fs' \<Rightarrow> if labels E \<noteq> None then append_last fs' lab else Inr fs')"

text \<open>Lines 127 to 143: the statements after the \<^verbatim>\<open>try\<close> statement.\<close>

definition after_try ::
  "('c, 'm, 'v, 'd) env \<Rightarrow> ('c, 'v) loop_state \<Rightarrow> 'v input_features \<Rightarrow>
   ('c, 'v) obj \<Rightarrow> exn \<times> parser + ('c, 'v) loop_state" where
  "after_try E st input_features lab =
     (let fs = (case features st of
                  None \<Rightarrow> init_features E input_features
                | Some fs \<Rightarrow> fs)
      in case append_features E fs input_features lab of
           Inl e \<Rightarrow> Inl (e, parser.truncate st)
         | Inr fs' \<Rightarrow>
             Inr (st\<lparr>features := Some fs', success_count := success_count st + 1\<rparr>))"

text \<open>
  Line 112, \<^verbatim>\<open>self.smiles.append(standardized_smiles)\<close>, is the last statement of the
  \<^verbatim>\<open>try\<close> block: on \<^verbatim>\<open>None\<close> it would raise \<^verbatim>\<open>AttributeError\<close> into the handlers.
\<close>

definition on_outcome ::
  "('c, 'm, 'v, 'd) env \<Rightarrow> bool \<Rightarrow> ('c, 'v) loop_state \<Rightarrow> ('c, 'v) outcome \<Rightarrow>
   exn \<times> parser + ('c, 'v) loop_state" where
  "on_outcome E retain_smiles st oc =
     (case oc of
        MolNone \<Rightarrow> Inr (st\<lparr>fail_count := fail_count st + 1\<rparr>)
      | Raised e \<Rightarrow> except_handler st e
      | Completed standardized_smiles input_features lab \<Rightarrow>
          if retain_smiles then
            (case smiles st of
               None \<Rightarrow> except_handler st AttributeError
             | Some ss \<Rightarrow>
                 after_try E (st\<lparr>smiles := Some (ss @ [standardized_smiles])\<rparr>)
                   input_features lab)
          else after_try E st input_features lab)"

text \<open>One iteration of the loop (lines 88 to 143).\<close>

definition row_outcome ::
  "('c, 'm, 'v, 'd) env \<Rightarrow> bool \<Rightarrow> nat \<Rightarrow> nat list \<Rightarrow> 'c list \<Rightarrow>
   exn + ('c, 'v) outcome" where
  "row_outcome E retain_smiles smiles_index labels_index row =
     (case getitem row smiles_index of
        Inl e \<Rightarrow> Inl e
      | Inr smi \<Rightarrow>
          (case getitems row labels_index of
             Inl e \<Rightarrow> Inl e
           | Inr ls \<Rightarrow> Inr (try_block E retain_smiles smi ls)))"

definition step ::
  "('c, 'm, 'v, 'd) env \<Rightarrow> bool \<Rightarrow> nat \<Rightarrow> nat list \<Rightarrow> ('c, 'v) loop_state \<Rightarrow>
   'c list \<Rightarrow> exn \<times> parser + ('c, 'v) loop_state" where
  "step E retain_smiles smiles_index labels_index st row =
     (case row_outcome E retain_smiles smiles_index labels_index row of
        Inl e \<Rightarrow> Inl (e, parser.truncate st)
      | Inr oc \<Rightarrow> on_outcome E retain_smiles st oc)"

fun parse_loop ::
  "('c, 'm, 'v, 'd) env \<Rightarrow> bool \<Rightarrow> nat \<Rightarrow> nat list \<Rightarrow> ('c, 'v) loop_state \<Rightarrow>
   'c list list \<Rightarrow> exn \<times> parser + ('c, 'v) loop_state" where
  "parse_loop E retain_smiles smiles_index labels_index st [] = Inr st"
| "parse_loop E retain_smiles smiles_index labels_index st (row # rest) =
     (case step E retain_smiles smiles_index labels_index st row of
        Inl ep \<Rightarrow> Inl ep
      | Inr st' \<Rightarrow> parse_loop E retain_smiles smiles_index labels_index st' rest)"

subsection \<open>Conversion to arrays (lines 144 to 156)\<close>

text \<open>
  \<^verbatim>\<open>numpy.asarray(feature)\<close> of a list: when it does not raise, an array with one entry
  per list element along the leading axis.
\<close>

definition numpy_asarray ::
  "('c, 'm, 'v, 'd) env \<Rightarrow> ('c, 'v) obj list \<Rightarrow> exn + ('c, 'v) obj ndarray" where
  "numpy_asarray E xs =
     (case asarray_raises E xs of
        Some e \<Rightarrow> Inl e
      | None \<Rightarrow> Inr (NDArray Inferred (map Some xs)))"

definition numpy_empty :: "nat \<Rightarrow> 'o ndarray" where
  "numpy_empty n = NDArray ObjectDtype (replicate n None)"

text \<open>
  \<^verbatim>\<open>a[:] = xs\<close> on a one-dimensional object array: a list of the array's length is
  stored entry by entry, a list of length one is broadcast, any other length is a
  \<^verbatim>\<open>ValueError\<close>.
\<close>

definition assign_all :: "'o ndarray \<Rightarrow> 'o list \<Rightarrow> exn + 'o ndarray" where
  "assign_all a xs =
     (if length xs = leading_dim a then Inr (NDArray (dtype_of a) (map Some xs))
      else if length xs = 1 then
        Inr (NDArray (dtype_of a) (replicate (leading_dim a) (Some (hd xs))))
      else Inl ValueError)"

definition convert_feature ::
  "('c, 'm, 'v, 'd) env \<Rightarrow> ('c, 'v) obj list \<Rightarrow> exn + ('c, 'v) obj ndarray" where
  "convert_feature E feature =
     (case numpy_asarray E feature of
        Inr feat_array \<Rightarrow> Inr feat_array
      | Inl e \<Rightarrow>
          if e = ValueError then assign_all (numpy_empty (length feature)) feature
          else Inl e)"

fun convert_all ::
  "('c, 'm, 'v, 'd) env \<Rightarrow> ('c, 'v) obj list list \<Rightarrow>
   exn + ('c, 'v) obj ndarray list" where
  "convert_all E [] = Inr []"
| "convert_all E (feature # rest) =
     (case convert_feature E feature of
        Inl e \<Rightarrow> Inl e
      | Inr feat_array \<Rightarrow>
          (case convert_all E rest of
             Inl e \<Rightarrow> Inl e
           | Inr ret \<Rightarrow> Inr (feat_array # ret)))"

subsection \<open>The method \<^verbatim>\<open>parse\<close>\<close>

text \<open>Lines 63 and 64: \<^verbatim>\<open>if retain_smiles: self.smiles = []\<close>.\<close>

definition begin_parse :: "parser \<Rightarrow> bool \<Rightarrow> parser" where
  "begin_parse p retain_smiles = (if retain_smiles then p\<lparr>smiles := Some []\<rparr> else p)"

text \<open>Lines 68 to 75: \<^verbatim>\<open>read_csv\<close>, and \<^verbatim>\<open>from_csv\<close> on \<^verbatim>\<open>AttributeError\<close>.\<close>

definition read_table :: "('c, 'm, 'v, 'd) env \<Rightarrow> string \<Rightarrow> exn + 'c table" where
  "read_table E filepath =
     (case read_csv E filepath of
        Inr df \<Rightarrow> Inr df
      | Inl e \<Rightarrow> if e = AttributeError then from_csv E filepath else Inl e)"

text \<open>Lines 79 to 82.\<close>

definition get_labels_index ::
  "('c, 'm, 'v, 'd) env \<Rightarrow> 'c table \<Rightarrow> exn + nat list" where
  "get_labels_index E df =
     (case labels E of
        None \<Rightarrow> Inr []
      | Some ls \<Rightarrow> get_locs (columns df) ls)"

text \<open>Lines 77 and 84 to 86: the locals before the first row.\<close>

definition loop_init :: "parser \<Rightarrow> ('c, 'v) loop_state" where
  "loop_init p =
     \<lparr>smiles = smiles p, logged = logged p,
      features = None, fail_count = 0, success_count = 0\<rparr>"

text \<open>
  Lines 146 to 158, after the loop: \<^verbatim>\<open>for feature in features\<close> is a \<^verbatim>\<open>TypeError\<close>
  when \<^verbatim>\<open>features\<close> is still \<^verbatim>\<open>None\<close>; then the summary line is logged.
\<close>

definition finish ::
  "('c, 'm, 'v, 'd) env \<Rightarrow> nat \<Rightarrow> ('c, 'v) loop_state \<Rightarrow>
   exn \<times> parser + ('c, 'v) obj ndarray list \<times> ('c, 'v) loop_state" where
  "finish E total_count st =
     (case features st of
        None \<Rightarrow> Inl (TypeError, parser.truncate st)
      | Some fs \<Rightarrow>
          (case convert_all E fs of
             Inl e \<Rightarrow> Inl (e, parser.truncate st)
           | Inr ret \<Rightarrow>
               Inr (ret,
                    st\<lparr>logged := logged st @
                       [Info_finished (fail_count st) (success_count st) total_count]\<rparr>)))"

text \<open>Lines 67 to 158: the branch of a \<^verbatim>\<open>MolPreprocessor\<close>, up to \<^verbatim>\<open>result\<close>.\<close>

definition parse_mol ::
  "('c, 'm, 'v, 'd) env \<Rightarrow> parser \<Rightarrow> string \<Rightarrow> bool \<Rightarrow>
   exn \<times> parser + ('c, 'v) obj ndarray list \<times> ('c, 'v) loop_state" where
  "parse_mol E p filepath retain_smiles =
     (case read_table E filepath of
        Inl e \<Rightarrow> Inl (e, p)
      | Inr df \<Rightarrow>
          (case get_loc (columns df) (smiles_col E) of
             Inl e \<Rightarrow> Inl (e, p)
           | Inr smiles_index \<Rightarrow>
               (case get_labels_index E df of
                  Inl e \<Rightarrow> Inl (e, p)
                | Inr labels_index \<Rightarrow>
                    (case parse_loop E retain_smiles smiles_index labels_index
                            (loop_init p) (rows df) of
                       Inl ep \<Rightarrow> Inl ep
                     | Inr st \<Rightarrow> finish E (length (rows df)) st))))"

text \<open>
  Lines 163 to 170: the post-processing function and the dataset. \<^verbatim>\<open>*result\<close> unpacks
  a tuple into its elements and iterates over any other value.
\<close>

definition star ::
  "('c, 'm, 'v, 'd) env \<Rightarrow> ('c, 'v) obj ndarray result \<Rightarrow>
   exn + ('c, 'v) obj ndarray result list" where
  "star E r =
     (case r of
        TupleResult xs \<Rightarrow> Inr (map NonTuple xs)
      | NonTuple a \<Rightarrow>
          (case iter_value E a of Inl e \<Rightarrow> Inl e | Inr xs \<Rightarrow> Inr (map NonTuple xs)))"

definition package ::
  "('c, 'm, 'v, 'd) env \<Rightarrow> ('c, 'v) obj ndarray result \<Rightarrow> exn + 'd" where
  "package E r =
     (case r of
        TupleResult xs \<Rightarrow>
          (case postprocess_fn E of
             None \<Rightarrow> NumpyTupleDataset E (map NonTuple xs)
           | Some g \<Rightarrow>
               (case g xs of
                  Inl e \<Rightarrow> Inl e
                | Inr r' \<Rightarrow>
                    (case star E r' of
                       Inl e \<Rightarrow> Inl e
                     | Inr args \<Rightarrow> NumpyTupleDataset E args)))
      | NonTuple a \<Rightarrow>
          (case postprocess_fn E of
             None \<Rightarrow> NumpyTupleDataset E [NonTuple a]
           | Some g \<Rightarrow>
               (case g [a] of
                  Inl e \<Rightarrow> Inl e
                | Inr r' \<Rightarrow> NumpyTupleDataset E [r'])))"

definition parse ::
  "('c, 'm, 'v, 'd) env \<Rightarrow> parser \<Rightarrow> string \<Rightarrow> bool \<Rightarrow> (exn + 'd) \<times> parser" where
  "parse E p filepath retain_smiles =
     (let p1 = begin_parse p retain_smiles in
      if is_MolPreprocessor E then
        (case parse_mol E p1 filepath retain_smiles of
           Inl (e, p2) \<Rightarrow> (Inl e, p2)
         | Inr (ret, st) \<Rightarrow> (package E (TupleResult ret), parser.truncate st))
      else
        (case pp_process E filepath of
           Inl e \<Rightarrow> (Inl e, p1)
         | Inr r \<Rightarrow> (package E r, p1)))"

subsection \<open>The method \<^verbatim>\<open>get_smiles\<close>\<close>

definition get_smiles :: "parser \<Rightarrow> string list option \<times> parser" where
  "get_smiles p =
     (case smiles p of
        None \<Rightarrow> (None, p\<lparr>logged := logged p @ [Warning_smiles_is_None]\<rparr>)
      | Some ss \<Rightarrow> (Some ss, p))"

text \<open>A sequence of calls of \<^verbatim>\<open>parse\<close> on one parser, each with its file and its flag.\<close>

fun run_calls ::
  "('c, 'm, 'v, 'd) env \<Rightarrow> parser \<Rightarrow> (string \<times> bool) list \<Rightarrow> parser" where
  "run_calls E p [] = p"
| "run_calls E p ((filepath, retain_smiles) # calls) =
     run_calls E (snd (parse E p filepath retain_smiles)) calls"

subsection \<open>The successfully processed records\<close>

text \<open>
  The rows whose \<^verbatim>\<open>try\<close> block ran to its end, in row order, each with its
  standardized SMILES, its input features and its labels.
\<close>

fun completed ::
  "('c, 'm, 'v, 'd) env \<Rightarrow> bool \<Rightarrow> nat \<Rightarrow> nat list \<Rightarrow> 'c list list \<Rightarrow>
   (string \<times> 'v input_features \<times> ('c, 'v) obj) list" where
  "completed E retain_smiles smiles_index labels_index [] = []"
| "completed E retain_smiles smiles_index labels_index (row # rest) =
     (case row_outcome E retain_smiles smiles_index labels_index row of
        Inr (Completed s f l) \<Rightarrow>
          (s, f, l) # completed E retain_smiles smiles_index labels_index rest
      | _ \<Rightarrow> completed E retain_smiles smiles_index labels_index rest)"

definition successful_records ::
  "('c, 'm, 'v, 'd) env \<Rightarrow> bool \<Rightarrow> string \<Rightarrow>
   (string \<times> 'v input_features \<times> ('c, 'v) obj) list" where
  "successful_records E retain_smiles filepath =
     (case read_table E filepath of
        Inl e \<Rightarrow> []
      | Inr df \<Rightarrow>
          (case get_loc (columns df) (smiles_col E) of
             Inl e \<Rightarrow> []
           | Inr smiles_index \<Rightarrow>
               (case get_labels_index E df of
                  Inl e \<Rightarrow> []
                | Inr labels_index \<Rightarrow>
                    completed E retain_smiles smiles_index labels_index (rows df))))"

text \<open>
  What one successfully processed record puts into slot \<open>j\<close> of \<open>n\<close> slots (lines 136
  to 142): its feature value number \<open>j\<close>, if it has one, and then its labels, if labels
  are configured and the slot is the last one.
\<close>

fun feature_at :: "'v input_features \<Rightarrow> nat \<Rightarrow> 'v" where
  "feature_at (Tuple xs) j = xs ! j"
| "feature_at (Single x) j = x"

definition slot_entries ::
  "('c, 'm, 'v, 'd) env \<Rightarrow> nat \<Rightarrow> nat \<Rightarrow>
   string \<times> 'v input_features \<times> ('c, 'v) obj \<Rightarrow> ('c, 'v) obj list" where
  "slot_entries E n j rec =
     (case rec of
        (s, f, l) \<Rightarrow>
          (if j < arity f then [Feature (feature_at f j)] else []) @
          (if labels E \<noteq> None \<and> Suc j = n then [l] else []))"

subsection \<open>A small parser to run\<close>

text \<open>
  Four files with a SMILES column and one label column, and stand-ins for the
  libraries: \<open>not_a_molecule\<close> does not parse, \<open>OCC\<close> is standardized to \<open>CCO\<close>,
  \<open>[U]\<close> has no features, \<open>C#N\<close> is written back as \<open>N#C\<close>, and benzene has three
  feature values where the others have one, the length of their SMILES. The second
  file has a benzene row, the third holds only rows that are skipped, the fourth
  molecules of different lengths.
\<close>

definition demo_table :: "string table" where
  "demo_table =
     \<lparr>columns = [''smiles'', ''label''],
      rows = [[''CCO'', ''1''], [''not_a_molecule'', ''0''], [''[U]'', ''0''],
              [''C#N'', ''1''], [''OCC'', ''1'']]\<rparr>"

definition wide_table :: "string table" where
  "wide_table =
     \<lparr>columns = [''smiles'', ''label''],
      rows = [[''CCO'', ''1''], [''c1ccccc1'', ''1''], [''OCC'', ''1'']]\<rparr>"

definition sizes_table :: "string table" where
  "sizes_table =
     \<lparr>columns = [''smiles'', ''label''],
      rows = [[''CC'', ''0''], [''bad'', ''0''], [''CCCC'', ''1''], [''OCC'', ''1'']]\<rparr>"

definition failing_table :: "string table" where
  "failing_table =
     \<lparr>columns = [''smiles'', ''label''],
      rows = [[''not_a_molecule'', ''0''], [''[U]'', ''1'']]\<rparr>"

definition demo ::
  "(string, string, nat, (string, nat) obj ndarray result list) env" where
  "demo =
     \<lparr>is_MolPreprocessor = True,
      labels = Some [''label''],
      smiles_col = ''smiles'',
      postprocess_label = None,
      postprocess_fn = None,
      read_csv = (\<lambda>f. if f = ''demo.csv'' then Inr demo_table
                       else if f = ''wide.csv'' then Inr wide_table
                       else if f = ''failing.csv'' then Inr failing_table
                       else if f = ''sizes.csv'' then Inr sizes_table
                       else Inl (OtherException ''FileNotFoundError'')),
      from_csv = (\<lambda>f. Inl (OtherException ''FileNotFoundError'')),
      MolFromSmiles =
        (\<lambda>s. if s = ''not_a_molecule'' \<or> s = ''bad'' then Inr None else Inr (Some s)),
      prepare_smiles_and_mol =
        (\<lambda>m. if m = ''OCC'' then Inr (''CCO'', ''CCO'') else Inr (m, m)),
      get_input_features =
        (\<lambda>m. if m = ''[U]'' then Inl MolFeatureExtractionError
              else if m = ''c1ccccc1'' then Inr (Tuple [6, 6, 0])
              else Inr (Tuple [length m])),
      MolToSmiles = (\<lambda>m. if m = ''C#N'' then Inr ''N#C'' else Inr m),
      asarray_raises = (\<lambda>xs. None),
      iter_value = (\<lambda>a. Inl TypeError),
      pp_process = (\<lambda>f. Inl (OtherException ''NotImplementedError'')),
      NumpyTupleDataset = (\<lambda>args. Inr args)\<rparr>"

section \<open>Properties\<close>

lemmas run_defs =
  step_def row_outcome_def on_outcome_def try_block_def extract_label_def check_smiles_def
  except_handler_def after_try_def init_features_def append_features_def append_at_def
  append_last_def getitem_def loop_init_def begin_parse_def init_parser_def
  parser.truncate_def

subsection \<open>The counters\<close>

lemma step_counts:
  "step E r si li st row = Inr st' \<Longrightarrow>
     success_count st' + fail_count st' = Suc (success_count st + fail_count st)"
  by (auto simp: step_def on_outcome_def except_handler_def after_try_def Let_def
           split: sum.splits outcome.splits if_splits option.splits)

lemma parse_loop_counts:
  "parse_loop E r si li st rws = Inr st' \<Longrightarrow>
     success_count st' + fail_count st' = success_count st + fail_count st + length rws"
proof (induction rws arbitrary: st)
  case Nil
  then show ?case by simp
next
  case (Cons row rest)
  then show ?case
    by (auto split: sum.splits dest!: step_counts)
qed

text \<open>The loop over a table is the loop over a prefix, continued on the rest: the state
  after a prefix is an intermediate state of the whole run.\<close>

lemma parse_loop_append:
  "parse_loop E r si li st (pre @ post) =
     (case parse_loop E r si li st pre of
        Inl ep \<Rightarrow> Inl ep
      | Inr st' \<Rightarrow> parse_loop E r si li st' post)"
  by (induction pre arbitrary: st) (auto split: sum.splits)

text \<open>
  Claim C3. Let the rows of the table be \<open>pre @ post\<close>, and let the loop, started with
  both counters at zero, have processed \<open>pre\<close> without an exception leaving it. Then
  \<open>fail_count + success_count\<close> is the number of rows processed so far, which is at most
  \<open>total_count\<close>, the number of rows of the table; and once every row is processed
  (\<open>post\<close> is empty) \<open>success_count + fail_count\<close> equals \<open>total_count\<close>.
\<close>

theorem counts_add_up:
  assumes "rows df = pre @ post"
    and "parse_loop E r si li (loop_init p) pre = Inr st"
  shows "fail_count st + success_count st = length pre \<and>
         fail_count st + success_count st \<le> length (rows df) \<and>
         (post = [] \<longrightarrow> success_count st + fail_count st = length (rows df))"
  using assms parse_loop_counts [of E r si li "loop_init p" pre st]
  by (auto simp: loop_init_def)

theorem counts_add_up_witness:
  "parse_loop demo False 0 [1] (loop_init (init_parser []))
     [[''CCO'', ''1''], [''not_a_molecule'', ''0'']] =
     Inr \<lparr>smiles = None, logged = [],
          features = Some [[Feature 3], [RawLabels [''1'']]],
          fail_count = 1, success_count = 1\<rparr> \<and>
   (1::nat) + 1 = length [[''CCO'', ''1''], [''not_a_molecule'', ''0'']] \<and>
   (1::nat) + 1 \<le> length (rows demo_table) \<and>
   parse_loop demo False 0 [1] (loop_init (init_parser [])) (rows failing_table) =
     Inr \<lparr>smiles = None, logged = [], features = None,
          fail_count = 2, success_count = 0\<rparr> \<and>
   (0::nat) + 2 = length (rows failing_table)"
proof -
  let ?st1 = "\<lparr>smiles = None, logged = [],
          features = Some [[Feature 3], [RawLabels [''1'']]],
          fail_count = 1, success_count = 1\<rparr> :: (string, nat) loop_state"
  let ?st2 = "\<lparr>smiles = None, logged = [], features = None,
          fail_count = 2, success_count = 0\<rparr> :: (string, nat) loop_state"
  have h1: "rows demo_table =
      [[''CCO'', ''1''], [''not_a_molecule'', ''0'']] @
      [[''[U]'', ''0''], [''C#N'', ''1''], [''OCC'', ''1'']]"
    by (simp add: demo_table_def)
  have h2: "parse_loop demo False 0 [1] (loop_init (init_parser []))
     [[''CCO'', ''1''], [''not_a_molecule'', ''0'']] = Inr ?st1"
    by (simp add: run_defs demo_def)
  have k1: "rows failing_table = rows failing_table @ []" by simp
  have k2: "parse_loop demo False 0 [1] (loop_init (init_parser [])) (rows failing_table) =
     Inr ?st2"
    by (simp add: run_defs demo_def failing_table_def)
  from counts_add_up [OF h1 h2]
  have "(1::nat) + 1 = length [[''CCO'', ''1''], [''not_a_molecule'', ''0'']] \<and>
        (1::nat) + 1 \<le> length (rows demo_table)"
    by simp
  moreover from counts_add_up [OF k1 k2]
  have "(0::nat) + 2 = length (rows failing_table)" by simp
  ultimately show ?thesis using h2 k2 by blast
qed

lemmas parse_defs =
  parse_def parse_mol_def read_table_def get_labels_index_def finish_def
  convert_feature_def numpy_asarray_def numpy_empty_def assign_all_def package_def

subsection \<open>Rows that are skipped\<close>

text \<open>
  Claim C6. Take a row whose SMILES cell and label cells can be read. If
  \<^verbatim>\<open>Chem.MolFromSmiles\<close> returns \<^verbatim>\<open>None\<close> for it, or if it yields a molecule and the
  \<^verbatim>\<open>try\<close> block then raises \<^verbatim>\<open>MolFeatureExtractionError\<close>, the iteration ends normally
  in the state it started from with \<open>fail_count\<close> one larger: \<open>success_count\<close>, the
  accumulators \<open>features\<close>, the retained list \<open>smiles\<close> and the log are as before, so
  nothing was appended, no exception left the loop and no warning was logged.
\<close>

theorem expected_failures_are_skipped:
  assumes "getitem row si = Inr c" and "getitems row li = Inr ls"
    and "MolFromSmiles E c = Inr None \<or>
         (\<exists>m. MolFromSmiles E c = Inr (Some m)) \<and>
         try_block E r c ls = Raised MolFeatureExtractionError"
  shows "step E r si li st row = Inr (st\<lparr>fail_count := fail_count st + 1\<rparr>)"
  using assms
  by (auto simp: step_def row_outcome_def on_outcome_def except_handler_def try_block_def)

theorem expected_failures_are_skipped_witness:
  "step demo True 0 [1] (loop_init (begin_parse (init_parser []) True))
     [''not_a_molecule'', ''0''] =
     Inr \<lparr>smiles = Some [], logged = [], features = None,
          fail_count = 1, success_count = 0\<rparr> \<and>
   step demo True 0 [1] (loop_init (begin_parse (init_parser []) True))
     [''[U]'', ''0''] =
     Inr \<lparr>smiles = Some [], logged = [], features = None,
          fail_count = 1, success_count = 0\<rparr>"
proof -
  have a: "getitem [''not_a_molecule'', ''0''] 0 = Inr ''not_a_molecule''"
    and b: "getitems [''not_a_molecule'', ''0''] [1] = Inr [''0'']"
    and c: "MolFromSmiles demo ''not_a_molecule'' = Inr None"
    by (simp_all add: getitem_def demo_def)
  have a': "getitem [''[U]'', ''0''] 0 = Inr ''[U]''"
    and b': "getitems [''[U]'', ''0''] [1] = Inr [''0'']"
    and c': "(\<exists>m. MolFromSmiles demo ''[U]'' = Inr (Some m)) \<and>
             try_block demo True ''[U]'' [''0''] = Raised MolFeatureExtractionError"
    by (simp_all add: getitem_def demo_def try_block_def)
  from expected_failures_are_skipped [OF a b disjI1 [OF c]]
       expected_failures_are_skipped [OF a' b' disjI2 [OF c']]
  show ?thesis by (simp add: loop_init_def begin_parse_def init_parser_def)
qed

text \<open>
  Claim C2, as the code has it. The \<^verbatim>\<open>assert\<close> of line 111 stands inside the \<^verbatim>\<open>try\<close>
  block, and \<^verbatim>\<open>AssertionError\<close> is an \<^verbatim>\<open>Exception\<close>. So when SMILES are retained and
  \<^verbatim>\<open>Chem.MolToSmiles(mol)\<close> differs from the standardized SMILES of a row that parsed
  and has features and labels, the generic handler takes the failure: it logs the
  warning and the traceback, counts the row as a failure and goes on to the next row.
  Nothing is appended for the row.
\<close>

theorem assertion_failure_is_skipped:
  assumes "getitem row si = Inr c" and "getitems row li = Inr ls"
    and "MolFromSmiles E c = Inr (Some mol0)"
    and "prepare_smiles_and_mol E mol0 = Inr (standardized_smiles, mol)"
    and "get_input_features E mol = Inr input_features"
    and "extract_label E ls = Inr lab"
    and "MolToSmiles E mol = Inr s" and "standardized_smiles \<noteq> s"
  shows "step E True si li st row =
           Inr (st\<lparr>logged := logged st @
                    [Warning_parse AssertionError, Info_traceback AssertionError],
                  fail_count := fail_count st + 1\<rparr>)"
  using assms
  by (simp add: step_def row_outcome_def on_outcome_def except_handler_def try_block_def
        check_smiles_def)

theorem assertion_failure_is_skipped_witness:
  "step demo True 0 [1] (loop_init (begin_parse (init_parser []) True)) [''C#N'', ''1''] =
     Inr \<lparr>smiles = Some [],
          logged = [Warning_parse AssertionError, Info_traceback AssertionError],
          features = None, fail_count = 1, success_count = 0\<rparr>"
proof -
  have a: "getitem [''C#N'', ''1''] 0 = Inr ''C#N''"
    and b: "getitems [''C#N'', ''1''] [1] = Inr [''1'']"
    and c: "MolFromSmiles demo ''C#N'' = Inr (Some ''C#N'')"
    and d: "prepare_smiles_and_mol demo ''C#N'' = Inr (''C#N'', ''C#N'')"
    and e: "get_input_features demo ''C#N'' = Inr (Tuple [3])"
    and f: "extract_label demo [''1''] = Inr (RawLabels [''1''])"
    and g: "MolToSmiles demo ''C#N'' = Inr ''N#C''"
    and h: "''C#N'' \<noteq> ''N#C''"
    by (simp_all add: getitem_def demo_def extract_label_def)
  from assertion_failure_is_skipped [OF a b c d e f g h]
  show ?thesis by (simp add: loop_init_def begin_parse_def init_parser_def)
qed

text \<open>
  Against claim C2 as stated: the fourth row of the file fails the \<^verbatim>\<open>assert\<close>, and
  \<^verbatim>\<open>parse\<close> still returns a dataset, built from the first and the fifth row; the
  assertion failure is in the log and among the three failures of the summary line.
\<close>

theorem assertion_failure_halts_counterexample:
  "try_block demo True ''C#N'' [''1''] = Raised AssertionError \<and>
   parse demo (init_parser []) ''demo.csv'' True =
     (Inr [NonTuple (NDArray Inferred [Some (Feature 3), Some (Feature 3)]),
           NonTuple (NDArray Inferred [Some (RawLabels [''1'']), Some (RawLabels [''1''])])],
      \<lparr>smiles = Some [''CCO'', ''CCO''],
       logged = [Warning_parse AssertionError, Info_traceback AssertionError,
                 Info_finished 3 2 5]\<rparr>)"
  by (simp add: run_defs parse_defs demo_def demo_table_def)

subsection \<open>A file in which no row succeeds\<close>

text \<open>
  Claim C1 fails on the code. Both rows of the file are skipped, one because it does
  not parse and one by \<^verbatim>\<open>MolFeatureExtractionError\<close>; \<^verbatim>\<open>features\<close> is then still
  \<^verbatim>\<open>None\<close> at line 146, and \<^verbatim>\<open>for feature in features\<close> raises \<^verbatim>\<open>TypeError\<close>: the call
  fails instead of returning an empty dataset.
\<close>

theorem all_rows_skipped_raises:
  "parse_loop demo False 0 [1] (loop_init (init_parser [])) (rows failing_table) =
     Inr \<lparr>smiles = None, logged = [], features = None,
          fail_count = 2, success_count = 0\<rparr> \<and>
   parse demo (init_parser []) ''failing.csv'' False =
     (Inl TypeError, \<lparr>smiles = None, logged = []\<rparr>)"
  by (simp add: run_defs parse_defs demo_def failing_table_def)

subsection \<open>Appending to the accumulators\<close>

lemma append_at_Inr:
  "append_at fs i x = Inr fs' \<longleftrightarrow> i < length fs \<and> fs' = fs[i := fs ! i @ [x]]"
  by (auto simp: append_at_def)

lemma append_tuple_length:
  "append_tuple fs i xs = Inr fs' \<Longrightarrow> length fs' = length fs"
  by (induction xs arbitrary: fs i) (auto simp: append_at_Inr split: sum.splits)

text \<open>A tuple that reaches beyond the last slot: \<^verbatim>\<open>features[i]\<close> raises.\<close>

lemma append_tuple_overflow:
  "length fs < i + length xs \<Longrightarrow> i \<le> length fs \<Longrightarrow>
     append_tuple fs i xs = Inl IndexError"
proof (induction xs arbitrary: fs i)
  case Nil
  then show ?case by simp
next
  case (Cons x xs)
  show ?case
  proof (cases "i < length fs")
    case False
    then show ?thesis by (simp add: append_at_def)
  next
    case True
    then have a: "append_at fs i x = Inr (fs[i := fs ! i @ [x]])"
      by (simp add: append_at_def)
    have "length (fs[i := fs ! i @ [x]]) < Suc i + length xs"
      and "Suc i \<le> length (fs[i := fs ! i @ [x]])"
      using Cons.prems True by simp_all
    from Cons.IH [OF this] a show ?thesis by simp
  qed
qed

text \<open>Slot \<open>j\<close> after the loop over the tuple: one more entry if the tuple reaches it.\<close>

lemma append_tuple_nth:
  "append_tuple fs i xs = Inr fs' \<Longrightarrow> j < length fs \<Longrightarrow>
     fs' ! j = (if i \<le> j \<and> j < i + length xs then fs ! j @ [xs ! (j - i)] else fs ! j)"
proof (induction xs arbitrary: fs i)
  case Nil
  then show ?case by simp
next
  case (Cons x xs)
  then obtain fs1 where a: "append_at fs i x = Inr fs1"
    and b: "append_tuple fs1 (Suc i) xs = Inr fs'"
    by (auto split: sum.splits)
  from a have i: "i < length fs" and fs1: "fs1 = fs[i := fs ! i @ [x]]"
    by (auto simp: append_at_Inr)
  from Cons.prems(2) fs1 have j: "j < length fs1" by simp
  from Cons.IH [OF b j] fs1 i Cons.prems(2) show ?case
    by (auto simp: nth_list_update nth_Cons')
qed

text \<open>The two halves of \<open>append_features\<close>: the feature values, then the labels.\<close>

lemma feature_part_length:
  "(case f of Tuple xs \<Rightarrow> append_tuple fs 0 (map Feature xs)
            | Single x \<Rightarrow> append_at fs 0 (Feature x)) = Inr fs' \<Longrightarrow>
   length fs' = length fs"
  by (auto simp: append_at_Inr split: input_features.splits dest: append_tuple_length)

lemma feature_part_nth:
  assumes "(case f of Tuple xs \<Rightarrow> append_tuple fs 0 (map Feature xs)
            | Single x \<Rightarrow> append_at fs 0 (Feature x)) = Inr fs'"
    and "j < length fs"
  shows "(j < arity f \<longrightarrow> (\<exists>v. fs' ! j = fs ! j @ [Feature v])) \<and>
         (\<not> j < arity f \<longrightarrow> fs' ! j = fs ! j)"
proof (cases f)
  case (Tuple xs)
  with assms have "append_tuple fs 0 (map Feature xs) = Inr fs'" by simp
  from append_tuple_nth [OF this assms(2)] Tuple show ?thesis by auto
next
  case (Single x)
  with assms show ?thesis
    by (auto simp: append_at_Inr nth_list_update)
qed

lemma append_features_length:
  "append_features E fs f l = Inr fs' \<Longrightarrow> length fs' = length fs"
  by (auto simp: append_features_def append_last_def append_at_Inr
      split: sum.splits if_splits dest: feature_part_length)

lemma init_features_length:
  "length (init_features E f) = arity f + (if labels E \<noteq> None then 1 else 0)"
  by (cases f) (simp_all add: init_features_def)

text \<open>What one successful record adds to slot \<open>j\<close>: a feature value if its tuple reaches
  the slot, and then the labels if the slot is the last one and labels are configured.\<close>

lemma append_features_slot:
  assumes "append_features E fs f l = Inr fs'" and "j < length fs"
  shows "\<exists>vs. fs' ! j =
           fs ! j @ map Feature vs @
           (if labels E \<noteq> None \<and> Suc j = length fs then [l] else [])
         \<and> length vs = (if j < arity f then 1 else 0)"
proof -
  from assms(1) obtain fs1 where
    a: "(case f of Tuple xs \<Rightarrow> append_tuple fs 0 (map Feature xs)
            | Single x \<Rightarrow> append_at fs 0 (Feature x)) = Inr fs1"
    and b: "(if labels E \<noteq> None then append_last fs1 l else Inr fs1) = Inr fs'"
    by (auto simp: append_features_def split: sum.splits)
  from feature_part_length [OF a] have len: "length fs1 = length fs" .
  from feature_part_nth [OF a assms(2)]
  obtain vs where vs: "fs1 ! j = fs ! j @ map Feature vs"
    "length vs = (if j < arity f then 1 else 0)"
  proof (cases "j < arity f")
    case True
    with \<open>(j < arity f \<longrightarrow> (\<exists>v. fs1 ! j = fs ! j @ [Feature v])) \<and> _\<close>
    obtain v where "fs1 ! j = fs ! j @ [Feature v]" by auto
    with True that [of "[v]"] show ?thesis by simp
  next
    case False
    with \<open>_ \<and> (\<not> j < arity f \<longrightarrow> fs1 ! j = fs ! j)\<close>
    have "fs1 ! j = fs ! j" by simp
    with False that [of "[]"] show ?thesis by simp
  qed
  from b len assms(2) have "fs' ! j =
      fs1 ! j @ (if labels E \<noteq> None \<and> Suc j = length fs then [l] else [])"
    by (auto simp: append_last_def append_at_Inr nth_list_update split: if_splits)
  with vs show ?thesis by auto
qed

text \<open>The same, with the entries named: what slot \<open>j\<close> holds after the record is
  what it held before, followed by the record's \<open>slot_entries\<close>.\<close>

lemma feature_part_exact:
  assumes "(case f of Tuple xs \<Rightarrow> append_tuple fs 0 (map Feature xs)
            | Single x \<Rightarrow> append_at fs 0 (Feature x)) = Inr fs'"
    and "j < length fs"
  shows "fs' ! j = fs ! j @ (if j < arity f then [Feature (feature_at f j)] else [])"
proof (cases f)
  case (Tuple xs)
  with assms have "append_tuple fs 0 (map Feature xs) = Inr fs'" by simp
  from append_tuple_nth [OF this assms(2)] Tuple show ?thesis by simp
next
  case (Single x)
  with assms show ?thesis
    by (auto simp: append_at_Inr nth_list_update)
qed

lemma append_features_exact:
  assumes "append_features E fs f l = Inr fs'" and "j < length fs"
  shows "fs' ! j = fs ! j @ slot_entries E (length fs) j (s, f, l)"
proof -
  from assms(1) obtain fs1 where
    a: "(case f of Tuple xs \<Rightarrow> append_tuple fs 0 (map Feature xs)
            | Single x \<Rightarrow> append_at fs 0 (Feature x)) = Inr fs1"
    and b: "(if labels E \<noteq> None then append_last fs1 l else Inr fs1) = Inr fs'"
    by (auto simp: append_features_def split: sum.splits)
  from feature_part_length [OF a] have len: "length fs1 = length fs" .
  from b len assms(2) have "fs' ! j =
      fs1 ! j @ (if labels E \<noteq> None \<and> Suc j = length fs then [l] else [])"
    by (auto simp: append_last_def append_at_Inr nth_list_update split: if_splits)
  with feature_part_exact [OF a assms(2)] show ?thesis
    by (simp add: slot_entries_def)
qed

subsection \<open>One iteration, seen from the list of successful records\<close>

lemma try_block_label:
  "try_block E r c ls = Completed s f l \<Longrightarrow> is_label l"
  by (auto simp: try_block_def extract_label_def
        split: sum.splits option.splits prod.splits)

lemma row_outcome_label:
  "row_outcome E r si li row = Inr (Completed s f l) \<Longrightarrow> is_label l"
  by (auto simp: row_outcome_def split: sum.splits dest: try_block_label)

text \<open>An iteration that does not leave the loop either skips its row, and then leaves
  the accumulators, \<open>success_count\<close> and the retained list alone, or it is a success.\<close>

lemma step_Inr_cases:
  assumes "step E r si li st row = Inr st'" and "r \<longrightarrow> smiles st \<noteq> None"
  shows "(completed E r si li (row # rest) = completed E r si li rest \<and>
          features st' = features st \<and> success_count st' = success_count st \<and>
          smiles st' = smiles st) \<or>
         (\<exists>s f l fs'.
            completed E r si li (row # rest) = (s, f, l) # completed E r si li rest \<and>
            is_label l \<and>
            append_features E
              (case features st of None \<Rightarrow> init_features E f | Some fs \<Rightarrow> fs) f l =
              Inr fs' \<and>
            features st' = Some fs' \<and> success_count st' = Suc (success_count st) \<and>
            smiles st' =
              (if r then map_option (\<lambda>ss. ss @ [s]) (smiles st) else smiles st))"
proof (cases "row_outcome E r si li row")
  case (Inl e)
  with assms show ?thesis by (simp add: step_def)
next
  case (Inr oc)
  show ?thesis
  proof (cases oc)
    case MolNone
    with Inr assms show ?thesis by (auto simp: step_def on_outcome_def)
  next
    case (Raised e)
    with Inr assms show ?thesis
      by (auto simp: step_def on_outcome_def except_handler_def split: if_splits)
  next
    case (Completed s f l)
    with Inr row_outcome_label [of E r si li row s f l] have "is_label l" by simp
    with Completed Inr assms show ?thesis
      by (auto simp: step_def on_outcome_def after_try_def Let_def
          split: sum.splits if_splits)
  qed
qed

subsection \<open>Conversion of the accumulators\<close>

lemma convert_feature_fallback:
  "asarray_raises E feature = Some ValueError \<Longrightarrow>
     convert_feature E feature = Inr (NDArray ObjectDtype (map Some feature))"
  by (simp add: convert_feature_def numpy_asarray_def numpy_empty_def assign_all_def)

lemma convert_feature_Inr:
  "convert_feature E feature = Inr a \<Longrightarrow>
     leading_dim a = length feature \<and> elems a = map Some feature"
  by (auto simp: convert_feature_def numpy_asarray_def numpy_empty_def assign_all_def
           split: option.splits if_splits)

lemma convert_all_length:
  "convert_all E fs = Inr ret \<Longrightarrow> length ret = length fs"
  by (induction fs arbitrary: ret) (auto split: sum.splits)

lemma convert_all_nth:
  "convert_all E fs = Inr ret \<Longrightarrow> i < length fs \<Longrightarrow>
     convert_feature E (fs ! i) = Inr (ret ! i)"
proof (induction fs arbitrary: ret i)
  case Nil
  then show ?case by simp
next
  case (Cons f fs)
  then show ?case
    by (cases i) (auto split: sum.splits)
qed

lemma convert_all_succeeds:
  "\<forall>f\<in>set fs. asarray_raises E f = None \<or> asarray_raises E f = Some ValueError \<Longrightarrow>
     \<exists>ret. convert_all E fs = Inr ret"
proof (induction fs)
  case Nil
  then show ?case by simp
next
  case (Cons f fs)
  then obtain ret where "convert_all E fs = Inr ret" by auto
  moreover from Cons.prems have "\<exists>a. convert_feature E f = Inr a"
    by (auto simp: convert_feature_def numpy_asarray_def numpy_empty_def assign_all_def)
  ultimately show ?case by auto
qed

subsection \<open>The retained SMILES\<close>

lemma parse_loop_Cons_Inr:
  "parse_loop E r si li st (row # rest) = Inr st' \<Longrightarrow>
     \<exists>st1. step E r si li st row = Inr st1 \<and> parse_loop E r si li st1 rest = Inr st'"
  by (auto split: sum.splits)

text \<open>Over a run of the loop: one SMILES appended and one count per successful record,
  in row order.\<close>

lemma parse_loop_smiles:
  assumes "parse_loop E r si li st rws = Inr st'" and "r \<longrightarrow> smiles st \<noteq> None"
  shows "smiles st' =
           (if r then map_option (\<lambda>ss. ss @ map fst (completed E r si li rws)) (smiles st)
            else smiles st) \<and>
         success_count st' = success_count st + length (completed E r si li rws)"
  using assms
proof (induction rws arbitrary: st)
  case Nil
  then show ?case by (cases "smiles st") auto
next
  case (Cons row rest)
  from parse_loop_Cons_Inr [OF Cons.prems(1)] obtain st1 where
    s: "step E r si li st row = Inr st1" and l: "parse_loop E r si li st1 rest = Inr st'"
    by blast
  from step_Inr_cases [OF s Cons.prems(2), of rest]
  show ?case
  proof
    assume a: "completed E r si li (row # rest) = completed E r si li rest \<and>
          features st1 = features st \<and> success_count st1 = success_count st \<and>
          smiles st1 = smiles st"
    with Cons.prems(2) have "r \<longrightarrow> smiles st1 \<noteq> None" by simp
    from Cons.IH [OF l this] a show ?thesis
      by (cases r) (simp_all del: completed.simps)
  next
    assume "\<exists>s f l fs'.
            completed E r si li (row # rest) = (s, f, l) # completed E r si li rest \<and>
            is_label l \<and>
            append_features E
              (case features st of None \<Rightarrow> init_features E f | Some fs \<Rightarrow> fs) f l =
              Inr fs' \<and>
            features st1 = Some fs' \<and> success_count st1 = Suc (success_count st) \<and>
            smiles st1 =
              (if r then map_option (\<lambda>ss. ss @ [s]) (smiles st) else smiles st)"
    then obtain s f l where
      c: "completed E r si li (row # rest) = (s, f, l) # completed E r si li rest"
      and n: "success_count st1 = Suc (success_count st)"
      and m: "smiles st1 =
              (if r then map_option (\<lambda>ss. ss @ [s]) (smiles st) else smiles st)"
      by blast
    from m Cons.prems(2) have "r \<longrightarrow> smiles st1 \<noteq> None" by auto
    from Cons.IH [OF l this] c n m show ?thesis
      by (cases r; cases "smiles st") (simp_all del: completed.simps)
  qed
qed

text \<open>Over a run of the loop, slot by slot: every successful record adds its
  \<open>slot_entries\<close> at the end of each slot, so a slot holds the entries of the successful
  records in row order.\<close>

lemma parse_loop_slots:
  assumes "parse_loop E r si li st rws = Inr st'" and "features st = Some fs"
    and "r \<longrightarrow> smiles st \<noteq> None"
  shows "\<exists>fs'. features st' = Some fs' \<and> length fs' = length fs \<and>
           (\<forall>j<length fs. fs' ! j =
              fs ! j @ concat (map (slot_entries E (length fs) j) (completed E r si li rws)))"
  using assms
proof (induction rws arbitrary: st fs)
  case Nil
  then show ?case by simp
next
  case (Cons row rest)
  from parse_loop_Cons_Inr [OF Cons.prems(1)] obtain st1 where
    s: "step E r si li st row = Inr st1" and l: "parse_loop E r si li st1 rest = Inr st'"
    by blast
  from step_Inr_cases [OF s Cons.prems(3), of rest]
  show ?case
  proof
    assume a: "completed E r si li (row # rest) = completed E r si li rest \<and>
          features st1 = features st \<and> success_count st1 = success_count st \<and>
          smiles st1 = smiles st"
    with Cons.prems have "features st1 = Some fs" and "r \<longrightarrow> smiles st1 \<noteq> None"
      by simp_all
    moreover from a
    have eq: "completed E r si li (row # rest) = completed E r si li rest" by blast
    ultimately show ?thesis unfolding eq using Cons.IH [OF l] by blast
  next
    assume "\<exists>s f l fs'.
            completed E r si li (row # rest) = (s, f, l) # completed E r si li rest \<and>
            is_label l \<and>
            append_features E
              (case features st of None \<Rightarrow> init_features E f | Some fs \<Rightarrow> fs) f l =
              Inr fs' \<and>
            features st1 = Some fs' \<and> success_count st1 = Suc (success_count st) \<and>
            smiles st1 =
              (if r then map_option (\<lambda>ss. ss @ [s]) (smiles st) else smiles st)"
    then obtain s f lab fs1 where
      c: "completed E r si li (row # rest) = (s, f, lab) # completed E r si li rest"
      and ap: "append_features E fs f lab = Inr fs1"
      and f1: "features st1 = Some fs1"
      and m: "smiles st1 =
              (if r then map_option (\<lambda>ss. ss @ [s]) (smiles st) else smiles st)"
      using Cons.prems(2) by auto
    from m Cons.prems(3) have sm: "r \<longrightarrow> smiles st1 \<noteq> None" by auto
    from append_features_length [OF ap] have len: "length fs1 = length fs" .
    from Cons.IH [OF l f1 sm] obtain fs' where
      r1: "features st' = Some fs'" and r2: "length fs' = length fs1"
      and r3: "\<forall>j<length fs1. fs' ! j =
              fs1 ! j @ concat (map (slot_entries E (length fs1) j) (completed E r si li rest))"
      by blast
    have "\<forall>j<length fs. fs' ! j =
              fs ! j @ concat (map (slot_entries E (length fs) j)
                                 (completed E r si li (row # rest)))"
    proof (intro allI impI)
      fix j assume j: "j < length fs"
      from append_features_exact [OF ap j, of s] r3 j len
      show "fs' ! j = fs ! j @ concat (map (slot_entries E (length fs) j)
                                 (completed E r si li (row # rest)))"
        unfolding c by simp
    qed
    with r1 r2 len show ?thesis by simp
  qed
qed

lemma parse_loop_slots_from_start:
  assumes "parse_loop E r si li st rws = Inr st'" and "features st = None"
    and "r \<longrightarrow> smiles st \<noteq> None"
  shows "(completed E r si li rws = [] \<longrightarrow> features st' = None) \<and>
         (\<forall>s f l cs. completed E r si li rws = (s, f, l) # cs \<longrightarrow>
            (\<exists>fs. features st' = Some fs \<and>
                  length fs = arity f + (if labels E \<noteq> None then 1 else 0) \<and>
                  (\<forall>j<length fs. fs ! j =
                     concat (map (slot_entries E (length fs) j) ((s, f, l) # cs)))))"
  using assms
proof (induction rws arbitrary: st)
  case Nil
  then show ?case by simp
next
  case (Cons row rest)
  from parse_loop_Cons_Inr [OF Cons.prems(1)] obtain st1 where
    s: "step E r si li st row = Inr st1" and l: "parse_loop E r si li st1 rest = Inr st'"
    by blast
  from step_Inr_cases [OF s Cons.prems(3), of rest]
  show ?case
  proof
    assume a: "completed E r si li (row # rest) = completed E r si li rest \<and>
          features st1 = features st \<and> success_count st1 = success_count st \<and>
          smiles st1 = smiles st"
    with Cons.prems have "features st1 = None" and "r \<longrightarrow> smiles st1 \<noteq> None"
      by simp_all
    moreover from a
    have eq: "completed E r si li (row # rest) = completed E r si li rest" by blast
    ultimately show ?thesis unfolding eq using Cons.IH [OF l] by blast
  next
    assume "\<exists>s f l fs'.
            completed E r si li (row # rest) = (s, f, l) # completed E r si li rest \<and>
            is_label l \<and>
            append_features E
              (case features st of None \<Rightarrow> init_features E f | Some fs \<Rightarrow> fs) f l =
              Inr fs' \<and>
            features st1 = Some fs' \<and> success_count st1 = Suc (success_count st) \<and>
            smiles st1 =
              (if r then map_option (\<lambda>ss. ss @ [s]) (smiles st) else smiles st)"
    then obtain s f lab fs1 where
      c: "completed E r si li (row # rest) = (s, f, lab) # completed E r si li rest"
      and ap: "append_features E (init_features E f) f lab = Inr fs1"
      and f1: "features st1 = Some fs1"
      and m: "smiles st1 =
              (if r then map_option (\<lambda>ss. ss @ [s]) (smiles st) else smiles st)"
      using Cons.prems(2) by auto
    let ?n = "arity f + (if labels E \<noteq> None then 1 else 0)"
    from m Cons.prems(3) have sm: "r \<longrightarrow> smiles st1 \<noteq> None" by auto
    have ilen: "length (init_features E f) = ?n" by (rule init_features_length)
    from append_features_length [OF ap] ilen have len: "length fs1 = ?n" by simp
    from parse_loop_slots [OF l f1 sm] obtain fs' where
      r1: "features st' = Some fs'" and r2: "length fs' = length fs1"
      and r3: "\<forall>j<length fs1. fs' ! j =
              fs1 ! j @ concat (map (slot_entries E (length fs1) j) (completed E r si li rest))"
      by blast
    have "\<forall>j<length fs'. fs' ! j =
            concat (map (slot_entries E (length fs') j)
                     ((s, f, lab) # completed E r si li rest))"
    proof (intro allI impI)
      fix j assume "j < length fs'"
      with r2 len ilen have j: "j < length (init_features E f)" and j1: "j < length fs1"
        by simp_all
      have "init_features E f ! j = []"
        using j by (simp add: init_features_def)
      with append_features_exact [OF ap j, of s] ilen len
      have "fs1 ! j = slot_entries E (length fs1) j (s, f, lab)" by simp
      with r3 j1 r2 show "fs' ! j =
            concat (map (slot_entries E (length fs') j)
                     ((s, f, lab) # completed E r si li rest))"
        by simp
    qed
    with r1 r2 len c show ?thesis by simp
  qed
qed


text \<open>What a successful run of the molecular branch went through.\<close>

lemma parse_mol_Inr:
  "parse_mol E p fp r = Inr (ret, st) \<Longrightarrow>
     \<exists>df si li st0 fs.
       read_table E fp = Inr df \<and> get_loc (columns df) (smiles_col E) = Inr si \<and>
       get_labels_index E df = Inr li \<and>
       parse_loop E r si li (loop_init p) (rows df) = Inr st0 \<and>
       successful_records E r fp = completed E r si li (rows df) \<and>
       features st0 = Some fs \<and> convert_all E fs = Inr ret \<and>
       st = st0\<lparr>logged := logged st0 @
              [Info_finished (fail_count st0) (success_count st0) (length (rows df))]\<rparr>"
  by (auto simp: parse_mol_def finish_def successful_records_def
      split: sum.splits option.splits)

lemma try_block_canonical:
  "try_block E r c ls = Completed s f l \<Longrightarrow>
     \<exists>mol0 mol. MolFromSmiles E c = Inr (Some mol0) \<and>
        prepare_smiles_and_mol E mol0 = Inr (s, mol) \<and>
        (r \<longrightarrow> MolToSmiles E mol = Inr s)"
  by (auto simp: try_block_def check_smiles_def
      split: sum.splits option.splits prod.splits if_splits)

lemma completed_canonical:
  "(s, f, l) \<in> set (completed E r si li rws) \<Longrightarrow>
     \<exists>row\<in>set rws. \<exists>c mol0 mol.
        getitem row si = Inr c \<and> MolFromSmiles E c = Inr (Some mol0) \<and>
        prepare_smiles_and_mol E mol0 = Inr (s, mol) \<and>
        (r \<longrightarrow> MolToSmiles E mol = Inr s)"
proof (induction rws)
  case Nil
  then show ?case by simp
next
  case (Cons row rest)
  show ?case
  proof (cases "row_outcome E r si li row = Inr (Completed s f l)")
    case True
    then obtain c ls where "getitem row si = Inr c"
      and "try_block E r c ls = Completed s f l"
      by (auto simp: row_outcome_def split: sum.splits)
    with try_block_canonical [of E r c ls s f l] show ?thesis by auto
  next
    case False
    with Cons.prems have "(s, f, l) \<in> set (completed E r si li rest)"
      by (auto split: sum.splits outcome.splits)
    from Cons.IH [OF this] show ?thesis by auto
  qed
qed

text \<open>
  Claim C4. Let \<^verbatim>\<open>parse\<close> be called on a molecular preprocessor with
  \<^verbatim>\<open>retain_smiles=True\<close> and return a dataset. Then \<^verbatim>\<open>self.smiles\<close> is the list of the
  standardized SMILES of the successfully processed records, one entry per success and
  in row order; its length is \<open>success_count\<close>. The accumulators are filled in the same
  order: slot \<open>j\<close> of \<^verbatim>\<open>features\<close> holds, record after record of that same list, the
  feature value number \<open>j\<close> of the record (and, in the last slot when labels are
  configured, its labels), and the array returned for the slot holds these entries in
  this order. And every entry of \<^verbatim>\<open>self.smiles\<close> is the string that
  \<^verbatim>\<open>pp.prepare_smiles_and_mol\<close> derived from the parsed molecule (the one
  \<^verbatim>\<open>Chem.MolToSmiles\<close> gives back), not the cell of the input file.
\<close>

theorem retained_smiles_are_canonical:
  fixes E :: "('c, 'm, 'v, 'd) env"
  assumes "is_MolPreprocessor E" and "parse E p filepath True = (Inr d, p')"
  shows "\<exists>ret st fs.
           parse_mol E (begin_parse p True) filepath True = Inr (ret, st) \<and>
           package E (TupleResult ret) = Inr d \<and>
           smiles p' = Some (map fst (successful_records E True filepath)) \<and>
           length (map fst (successful_records E True filepath)) = success_count st \<and>
           features st = Some fs \<and> length ret = length fs \<and>
           (\<forall>j<length fs.
              fs ! j = concat (map (slot_entries E (length fs) j)
                                (successful_records E True filepath)) \<and>
              elems (ret ! j) = map Some (fs ! j)) \<and>
           (\<forall>(s, f, l) \<in> set (successful_records E True filepath).
              \<exists>c mol0 mol. MolFromSmiles E c = Inr (Some mol0) \<and>
                prepare_smiles_and_mol E mol0 = Inr (s, mol) \<and>
                MolToSmiles E mol = Inr s)"
proof -
  from assms obtain ret st where
    pm: "parse_mol E (begin_parse p True) filepath True = Inr (ret, st)"
    and p': "p' = parser.truncate st"
    and pk: "package E (TupleResult ret) = Inr d"
    by (auto simp: parse_def Let_def split: sum.splits prod.splits)
  from parse_mol_Inr [OF pm] obtain df :: "'c table" and si li st0 fs where
    lp: "parse_loop E True si li (loop_init (begin_parse p True)) (rows df) = Inr st0"
    and sr: "successful_records E True filepath = completed E True si li (rows df)"
    and fs: "features st0 = Some fs" and cv: "convert_all E fs = Inr ret"
    and st: "st = st0\<lparr>logged := logged st0 @
              [Info_finished (fail_count st0) (success_count st0) (length (rows df))]\<rparr>"
    by blast
  have i1: "smiles (loop_init (begin_parse p True) :: ('c, 'v) loop_state) = Some []"
    and i2: "features (loop_init (begin_parse p True) :: ('c, 'v) loop_state) = None"
    by (simp_all add: loop_init_def begin_parse_def)
  from parse_loop_smiles [OF lp] i1 have
    "smiles st0 = Some (map fst (completed E True si li (rows df)))"
    and "success_count st0 = length (completed E True si li (rows df))"
    by (simp_all add: loop_init_def)
  with sr st p' have a: "smiles p' = Some (map fst (successful_records E True filepath))"
    and b: "length (map fst (successful_records E True filepath)) = success_count st"
    by (simp_all add: parser.truncate_def)
  have c: "\<forall>(s, f, l) \<in> set (successful_records E True filepath).
              \<exists>c mol0 mol. MolFromSmiles E c = Inr (Some mol0) \<and>
                prepare_smiles_and_mol E mol0 = Inr (s, mol) \<and>
                MolToSmiles E mol = Inr s"
    unfolding sr using completed_canonical [of _ _ _ E True si li "rows df"] by fastforce
  have sm: "True \<longrightarrow> smiles (loop_init (begin_parse p True) :: ('c, 'v) loop_state) \<noteq> None"
    using i1 by simp
  have sl: "\<forall>j<length fs.
      fs ! j = concat (map (slot_entries E (length fs) j) (completed E True si li (rows df)))"
  proof (cases "completed E True si li (rows df)")
    case Nil
    with parse_loop_slots_from_start [OF lp i2 sm] fs show ?thesis by simp
  next
    case (Cons rec cs)
    obtain s f l where "rec = (s, f, l)" by (cases rec) auto
    with Cons parse_loop_slots_from_start [OF lp i2 sm] fs show ?thesis by auto
  qed
  have el: "\<forall>j<length fs. elems (ret ! j) = map Some (fs ! j)"
    using convert_all_nth [OF cv] convert_feature_Inr by blast
  from st fs have f: "features st = Some fs" by simp
  from convert_all_length [OF cv] have ln: "length ret = length fs" .
  from pm pk a b c f ln sl el sr show ?thesis by auto
qed


theorem retained_smiles_are_canonical_witness:
  "parse demo (init_parser []) ''sizes.csv'' True =
     (Inr [NonTuple (NDArray Inferred [Some (Feature 2), Some (Feature 4), Some (Feature 3)]),
           NonTuple (NDArray Inferred [Some (RawLabels [''0'']), Some (RawLabels [''1'']),
                                       Some (RawLabels [''1''])])],
      \<lparr>smiles = Some [''CC'', ''CCCC'', ''CCO''], logged = [Info_finished 1 3 4]\<rparr>) \<and>
   map fst (successful_records demo True ''sizes.csv'') = [''CC'', ''CCCC'', ''CCO''] \<and>
   concat (map (slot_entries demo 2 0) (successful_records demo True ''sizes.csv'')) =
     [Feature 2, Feature 4, Feature 3] \<and>
   concat (map (slot_entries demo 2 1) (successful_records demo True ''sizes.csv'')) =
     [RawLabels [''0''], RawLabels [''1''], RawLabels [''1'']]"
proof -
  let ?fs = "[[Feature 2, Feature 4, Feature 3],
              [RawLabels [''0''], RawLabels [''1''], RawLabels [''1'']]]
             :: (string, nat) obj list list"
  let ?ret = "[NDArray Inferred [Some (Feature 2), Some (Feature 4), Some (Feature 3)],
               NDArray Inferred [Some (RawLabels [''0'']), Some (RawLabels [''1'']),
                                 Some (RawLabels [''1''])]]
              :: (string, nat) obj ndarray list"
  let ?st = "\<lparr>smiles = Some [''CC'', ''CCCC'', ''CCO''], logged = [Info_finished 1 3 4],
             features = Some ?fs, fail_count = 1, success_count = 3\<rparr>
             :: (string, nat) loop_state"
  have h1: "is_MolPreprocessor demo" by (simp add: demo_def)
  have h3: "parse_mol demo (begin_parse (init_parser []) True) ''sizes.csv'' True =
              Inr (?ret, ?st)"
    by (simp add: run_defs parse_defs demo_def sizes_table_def)
  have h2: "parse demo (init_parser []) ''sizes.csv'' True =
     (Inr (map NonTuple ?ret),
      \<lparr>smiles = Some [''CC'', ''CCCC'', ''CCO''], logged = [Info_finished 1 3 4]\<rparr>)"
    using h3 by (simp add: parse_def package_def demo_def parser.truncate_def)
  from retained_smiles_are_canonical [OF h1 h2] h3
  have a: "map fst (successful_records demo True ''sizes.csv'') = [''CC'', ''CCCC'', ''CCO'']"
    and b: "\<forall>j<length ?fs. ?fs ! j =
             concat (map (slot_entries demo (length ?fs) j)
                      (successful_records demo True ''sizes.csv''))"
    by auto
  from b [rule_format, of 0] b [rule_format, of 1] a h2 show ?thesis
    by (simp add: numeral_2_eq_2)
qed

subsection \<open>Accumulators on which \<^verbatim>\<open>numpy.asarray\<close> fails\<close>

text \<open>
  Claim C7. Let the row loop of \<^verbatim>\<open>parse\<close> end with the accumulators \<open>fs\<close>, and let
  \<^verbatim>\<open>numpy.asarray\<close> raise \<^verbatim>\<open>ValueError\<close> on slot \<open>j\<close>, as it does on ragged data, while on
  every slot it either succeeds or raises \<^verbatim>\<open>ValueError\<close>. Then the conversion of lines
  146 to 155 does not fail: the summary line is logged and \<^verbatim>\<open>parse\<close> goes on to build its
  result from one array per slot (without a post-processing function, it returns what
  \<^verbatim>\<open>NumpyTupleDataset\<close> makes of them). The array of slot \<open>j\<close> has dtype object, its
  leading dimension is the number of accumulated values, and its entries are these
  values themselves, in order.
\<close>

theorem ragged_falls_back_to_object_array:
  fixes E :: "('c, 'm, 'v, 'd) env" and df :: "'c table"
  assumes "is_MolPreprocessor E" and "read_table E filepath = Inr df"
    and "get_loc (columns df) (smiles_col E) = Inr si"
    and "get_labels_index E df = Inr li"
    and "parse_loop E r si li (loop_init (begin_parse p r)) (rows df) = Inr st"
    and "features st = Some fs" and "j < length fs"
    and "asarray_raises E (fs ! j) = Some ValueError"
    and "\<forall>f\<in>set fs. asarray_raises E f = None \<or> asarray_raises E f = Some ValueError"
  shows "\<exists>ret.
           finish E (length (rows df)) st =
             Inr (ret, st\<lparr>logged := logged st @
                    [Info_finished (fail_count st) (success_count st) (length (rows df))]\<rparr>) \<and>
           parse E p filepath r =
             (package E (TupleResult ret),
              \<lparr>smiles = smiles st,
               logged = logged st @
                 [Info_finished (fail_count st) (success_count st) (length (rows df))]\<rparr>) \<and>
           (postprocess_fn E = None \<longrightarrow>
              fst (parse E p filepath r) = NumpyTupleDataset E (map NonTuple ret)) \<and>
           length ret = length fs \<and>
           ret ! j = NDArray ObjectDtype (map Some (fs ! j)) \<and>
           dtype_of (ret ! j) = ObjectDtype \<and>
           leading_dim (ret ! j) = length (fs ! j) \<and>
           elems (ret ! j) = map Some (fs ! j)"
proof -
  from convert_all_succeeds [OF assms(9)] obtain ret where
    cv: "convert_all E fs = Inr ret" by blast
  from convert_all_length [OF cv] have ln: "length ret = length fs" .
  from convert_all_nth [OF cv assms(7)] convert_feature_fallback [OF assms(8)]
  have rj: "ret ! j = NDArray ObjectDtype (map Some (fs ! j))" by simp
  have fin: "finish E (length (rows df)) st =
             Inr (ret, st\<lparr>logged := logged st @
                    [Info_finished (fail_count st) (success_count st) (length (rows df))]\<rparr>)"
    using assms(6) cv by (simp add: finish_def)
  have pm: "parse_mol E (begin_parse p r) filepath r = finish E (length (rows df)) st"
    using assms(2-5) by (simp add: parse_mol_def)
  have pa: "parse E p filepath r =
             (package E (TupleResult ret),
              \<lparr>smiles = smiles st,
               logged = logged st @
                 [Info_finished (fail_count st) (success_count st) (length (rows df))]\<rparr>)"
    using assms(1) pm fin by (simp add: parse_def parser.truncate_def)
  have pk: "postprocess_fn E = None \<longrightarrow>
              fst (parse E p filepath r) = NumpyTupleDataset E (map NonTuple ret)"
    using pa by (simp add: package_def)
  from fin pa pk ln rj show ?thesis by simp
qed


theorem ragged_falls_back_to_object_array_witness:
  "parse (demo\<lparr>asarray_raises :=
            (\<lambda>xs. if list_ex is_label xs then Some ValueError else None)\<rparr>)
     (init_parser []) ''sizes.csv'' False =
     (Inr [NonTuple (NDArray Inferred [Some (Feature 2), Some (Feature 4), Some (Feature 3)]),
           NonTuple (NDArray ObjectDtype [Some (RawLabels [''0'']), Some (RawLabels [''1'']),
                                          Some (RawLabels [''1''])])],
      \<lparr>smiles = None, logged = [Info_finished 1 3 4]\<rparr>)"
proof -
  let ?E = "demo\<lparr>asarray_raises :=
              (\<lambda>xs. if list_ex is_label xs then Some ValueError else None)\<rparr>"
  let ?fs = "[[Feature 2, Feature 4, Feature 3],
              [RawLabels [''0''], RawLabels [''1''], RawLabels [''1'']]]
             :: (string, nat) obj list list"
  let ?st = "\<lparr>smiles = None, logged = [], features = Some ?fs,
             fail_count = 1, success_count = 3\<rparr> :: (string, nat) loop_state"
  have a: "is_MolPreprocessor ?E" and b: "read_table ?E ''sizes.csv'' = Inr sizes_table"
    and c: "get_loc (columns sizes_table) (smiles_col ?E) = Inr 0"
    and d: "get_labels_index ?E sizes_table = Inr [1]"
    by (simp_all add: demo_def read_table_def sizes_table_def get_labels_index_def)
  have e: "parse_loop ?E False 0 [1] (loop_init (begin_parse (init_parser []) False))
             (rows sizes_table) = Inr ?st"
    by (simp add: run_defs demo_def sizes_table_def)
  have f: "features ?st = Some ?fs" and g: "1 < length ?fs"
    and h: "asarray_raises ?E (?fs ! 1) = Some ValueError"
    and i: "\<forall>f\<in>set ?fs. asarray_raises ?E f = None \<or> asarray_raises ?E f = Some ValueError"
    by simp_all
  from ragged_falls_back_to_object_array [OF a b c d e f g h i] show ?thesis
    by (cases "parse ?E (init_parser []) ''sizes.csv'' False")
       (simp add: run_defs parse_defs demo_def sizes_table_def)
qed

subsection \<open>A record with more feature values than slots\<close>

lemma step_overflow:
  assumes "row_outcome E r si li row = Inr (Completed s (Tuple xs) l)"
    and "features st = Some fs" and "length fs < length xs"
    and "r \<longrightarrow> smiles st \<noteq> None"
  shows "\<exists>p'. step E r si li st row = Inl (IndexError, p') \<and> logged p' = logged st"
proof -
  have "append_tuple fs 0 (map Feature xs) = Inl IndexError"
    using append_tuple_overflow [of fs 0 "map Feature xs"] assms(3) by simp
  then have "append_features E fs (Tuple xs) l = Inl IndexError"
    by (simp add: append_features_def)
  with assms show ?thesis
    by (auto simp: step_def on_outcome_def after_try_def parser.truncate_def)
qed

lemma parse_loop_Inl_parse:
  fixes E :: "('c, 'm, 'v, 'd) env" and df :: "'c table"
  assumes "is_MolPreprocessor E" and "read_table E fp = Inr df"
    and "get_loc (columns df) (smiles_col E) = Inr si"
    and "get_labels_index E df = Inr li"
    and "parse_loop E r si li (loop_init (begin_parse p r)) (rows df) = Inl (e, p')"
  shows "parse E p fp r = (Inl e, p')"
  using assms by (simp add: parse_def parse_mol_def)

lemma overflow_leaves_parse:
  fixes E :: "('c, 'm, 'v, 'd) env" and df :: "'c table"
  assumes "is_MolPreprocessor E" and "read_table E filepath = Inr df"
    and "get_loc (columns df) (smiles_col E) = Inr si"
    and "get_labels_index E df = Inr li"
    and "rows df = pre @ row # rest"
    and "parse_loop E r si li (loop_init (begin_parse p r)) pre = Inr st"
    and "features st = Some fs"
    and "row_outcome E r si li row = Inr (Completed s (Tuple xs) l)"
    and "length fs < length xs"
  shows "fst (parse E p filepath r) = Inl IndexError \<and>
         logged (snd (parse E p filepath r)) = logged st"
proof -
  have "r \<longrightarrow> smiles (loop_init (begin_parse p r) :: ('c, 'v) loop_state) \<noteq> None"
    by (simp add: loop_init_def begin_parse_def)
  with parse_loop_smiles [OF assms(6)] have "r \<longrightarrow> smiles st \<noteq> None"
    by (auto simp: loop_init_def begin_parse_def)
  from step_overflow [OF assms(8) assms(7) assms(9) this] obtain p' where
    s: "step E r si li st row = Inl (IndexError, p')" and lg: "logged p' = logged st"
    by blast
  have "parse_loop E r si li (loop_init (begin_parse p r)) (rows df) = Inl (IndexError, p')"
    using assms(5) assms(6) s by (simp add: parse_loop_append)
  from parse_loop_Inl_parse [OF assms(1-4) this] lg show ?thesis by simp
qed

text \<open>
  Claim C10. Let a record have succeeded among the rows before \<open>row\<close>, the first of
  them with features \<open>f0\<close>: it fixed the number of slots, its number of feature values
  plus one when labels are configured. If the \<^verbatim>\<open>try\<close> block of \<open>row\<close> runs to its end with
  a tuple of more feature values than there are slots, then \<^verbatim>\<open>features[i].append\<close>
  raises \<^verbatim>\<open>IndexError\<close> after the \<^verbatim>\<open>try\<close> statement, where no handler is: \<^verbatim>\<open>parse\<close> as a
  whole ends with \<^verbatim>\<open>IndexError\<close>, whatever rows follow. Nothing is logged for the row,
  neither a warning nor the summary line, and no counter survives: the row is not
  counted as a failure.
\<close>

theorem arity_overflow_aborts:
  fixes E :: "('c, 'm, 'v, 'd) env" and df :: "'c table"
  assumes "is_MolPreprocessor E" and "read_table E filepath = Inr df"
    and "get_loc (columns df) (smiles_col E) = Inr si"
    and "get_labels_index E df = Inr li"
    and "rows df = pre @ row # rest"
    and "parse_loop E r si li (loop_init (begin_parse p r)) pre = Inr st"
    and "completed E r si li pre = (s0, f0, l0) # cs"
    and "row_outcome E r si li row = Inr (Completed s (Tuple xs) l)"
    and "arity f0 + (if labels E \<noteq> None then 1 else 0) < length xs"
  shows "fst (parse E p filepath r) = Inl IndexError \<and>
         logged (snd (parse E p filepath r)) = logged st"
proof -
  have i1: "features (loop_init (begin_parse p r) :: ('c, 'v) loop_state) = None"
    and i2: "r \<longrightarrow> smiles (loop_init (begin_parse p r) :: ('c, 'v) loop_state) \<noteq> None"
    by (simp_all add: loop_init_def begin_parse_def)
  from parse_loop_slots_from_start [OF assms(6) i1 i2] assms(7) obtain fs where
    f: "features st = Some fs"
    and n: "length fs = arity f0 + (if labels E \<noteq> None then 1 else 0)"
    by blast
  from n assms(9) have "length fs < length xs" by simp
  from overflow_leaves_parse [OF assms(1-6) f assms(8) this] show ?thesis .
qed

theorem arity_overflow_aborts_witness:
  "completed demo False 0 [1] [[''CCO'', ''1'']] = [(''CCO'', Tuple [3], RawLabels [''1''])] \<and>
   row_outcome demo False 0 [1] [''c1ccccc1'', ''1''] =
     Inr (Completed ''c1ccccc1'' (Tuple [6, 6, 0]) (RawLabels [''1''])) \<and>
   parse demo (init_parser []) ''wide.csv'' False =
     (Inl IndexError, \<lparr>smiles = None, logged = []\<rparr>)"
proof -
  let ?st = "\<lparr>smiles = None, logged = [],
          features = Some [[Feature 3], [RawLabels [''1'']]],
          fail_count = 0, success_count = 1\<rparr> :: (string, nat) loop_state"
  have a: "is_MolPreprocessor demo" and b: "read_table demo ''wide.csv'' = Inr wide_table"
    and c: "get_loc (columns wide_table) (smiles_col demo) = Inr 0"
    and d: "get_labels_index demo wide_table = Inr [1]"
    and e: "rows wide_table = [[''CCO'', ''1'']] @ [''c1ccccc1'', ''1''] # [[''OCC'', ''1'']]"
    by (simp_all add: demo_def read_table_def wide_table_def get_labels_index_def)
  have f: "parse_loop demo False 0 [1] (loop_init (begin_parse (init_parser []) False))
             [[''CCO'', ''1'']] = Inr ?st"
    by (simp add: run_defs demo_def)
  have g: "completed demo False 0 [1] [[''CCO'', ''1'']] =
             (''CCO'', Tuple [3], RawLabels [''1'']) # []"
    by (simp add: run_defs demo_def)
  have h: "row_outcome demo False 0 [1] [''c1ccccc1'', ''1''] =
     Inr (Completed ''c1ccccc1'' (Tuple [6, 6, 0]) (RawLabels [''1'']))"
    by (simp add: run_defs demo_def)
  have i: "arity (Tuple [3 :: nat]) + (if labels demo \<noteq> None then 1 else 0)
             < length [6, 6, 0 :: nat]"
    by (simp add: demo_def)
  from arity_overflow_aborts [OF a b c d e f g h i] g h show ?thesis
    by (cases "parse demo (init_parser []) ''wide.csv'' False")
       (simp add: run_defs parse_defs demo_def wide_table_def)
qed

text \<open>
  The bound is the number of slots, not the number of feature values of the first
  successful record. Here labels are configured and the first record has one feature
  value; the second has two. No \<^verbatim>\<open>IndexError\<close> is raised: the second value lands in the
  label slot, the record counts as a success and \<^verbatim>\<open>parse\<close> returns a dataset.
\<close>

theorem one_value_more_than_feature_slots_counterexample:
  "completed
     (demo\<lparr>get_input_features :=
        (\<lambda>m. if m = ''c1ccccc1'' then Inr (Tuple [6, 6]) else Inr (Tuple [length m]))\<rparr>)
     False 0 [1] (rows wide_table) =
     [(''CCO'', Tuple [3], RawLabels [''1'']),
      (''c1ccccc1'', Tuple [6, 6], RawLabels [''1'']),
      (''CCO'', Tuple [3], RawLabels [''1''])] \<and>
   parse
     (demo\<lparr>get_input_features :=
        (\<lambda>m. if m = ''c1ccccc1'' then Inr (Tuple [6, 6]) else Inr (Tuple [length m]))\<rparr>)
     (init_parser []) ''wide.csv'' False =
     (Inr [NonTuple (NDArray Inferred [Some (Feature 3), Some (Feature 6), Some (Feature 3)]),
           NonTuple (NDArray Inferred
             [Some (RawLabels [''1'']), Some (Feature 6), Some (RawLabels [''1'']),
              Some (RawLabels [''1''])])],
      \<lparr>smiles = None, logged = [Info_finished 0 3 3]\<rparr>)"
  by (simp add: run_defs parse_defs demo_def wide_table_def)

subsection \<open>The slots\<close>

lemma append_features_labels:
  assumes "append_features E fs f l = Inr fs'" and "is_label l" and "j < length fs"
  shows "filter is_label (fs' ! j) =
           filter is_label (fs ! j) @
           (if labels E \<noteq> None \<and> Suc j = length fs then [l] else [])"
proof -
  from append_features_slot [OF assms(1) assms(3)] obtain vs where
    "fs' ! j = fs ! j @ map Feature vs @
           (if labels E \<noteq> None \<and> Suc j = length fs then [l] else [])"
    by blast
  moreover have "filter is_label (map Feature vs :: ('a, 'b) obj list) = []"
    by (induction vs) simp_all
  ultimately show ?thesis using assms(2) by simp
qed

lemma parse_loop_labels:
  assumes "parse_loop E r si li st rws = Inr st'" and "features st = Some fs"
    and "r \<longrightarrow> smiles st \<noteq> None"
  shows "\<exists>fs'. features st' = Some fs' \<and> length fs' = length fs \<and>
           (\<forall>j<length fs. filter is_label (fs' ! j) =
              filter is_label (fs ! j) @
              (if labels E \<noteq> None \<and> Suc j = length fs
               then map (snd \<circ> snd) (completed E r si li rws) else []))"
  using assms
proof (induction rws arbitrary: st fs)
  case Nil
  then show ?case by simp
next
  case (Cons row rest)
  from parse_loop_Cons_Inr [OF Cons.prems(1)] obtain st1 where
    s: "step E r si li st row = Inr st1" and l: "parse_loop E r si li st1 rest = Inr st'"
    by blast
  from step_Inr_cases [OF s Cons.prems(3), of rest]
  show ?case
  proof
    assume a: "completed E r si li (row # rest) = completed E r si li rest \<and>
          features st1 = features st \<and> success_count st1 = success_count st \<and>
          smiles st1 = smiles st"
    with Cons.prems have "features st1 = Some fs" and "r \<longrightarrow> smiles st1 \<noteq> None"
      by simp_all
    moreover from a
    have eq: "completed E r si li (row # rest) = completed E r si li rest" by blast
    ultimately show ?thesis unfolding eq using Cons.IH [OF l] by blast
  next
    assume "\<exists>s f l fs'.
            completed E r si li (row # rest) = (s, f, l) # completed E r si li rest \<and>
            is_label l \<and>
            append_features E
              (case features st of None \<Rightarrow> init_features E f | Some fs \<Rightarrow> fs) f l =
              Inr fs' \<and>
            features st1 = Some fs' \<and> success_count st1 = Suc (success_count st) \<and>
            smiles st1 =
              (if r then map_option (\<lambda>ss. ss @ [s]) (smiles st) else smiles st)"
    then obtain s f lab fs1 where
      c: "completed E r si li (row # rest) = (s, f, lab) # completed E r si li rest"
      and lb: "is_label lab"
      and ap: "append_features E fs f lab = Inr fs1"
      and f1: "features st1 = Some fs1"
      and m: "smiles st1 =
              (if r then map_option (\<lambda>ss. ss @ [s]) (smiles st) else smiles st)"
      using Cons.prems(2) by auto
    from m Cons.prems(3) have sm: "r \<longrightarrow> smiles st1 \<noteq> None" by auto
    from append_features_length [OF ap] have len: "length fs1 = length fs" .
    from Cons.IH [OF l f1 sm] obtain fs' where
      r1: "features st' = Some fs'" and r2: "length fs' = length fs1"
      and r3: "\<forall>j<length fs1. filter is_label (fs' ! j) =
              filter is_label (fs1 ! j) @
              (if labels E \<noteq> None \<and> Suc j = length fs1
               then map (snd \<circ> snd) (completed E r si li rest) else [])"
      by blast
    have "\<forall>j<length fs. filter is_label (fs' ! j) =
              filter is_label (fs ! j) @
              (if labels E \<noteq> None \<and> Suc j = length fs
               then map (snd \<circ> snd) (completed E r si li (row # rest)) else [])"
    proof (intro allI impI)
      fix j assume j: "j < length fs"
      from append_features_labels [OF ap lb j] r3 j len c
      show "filter is_label (fs' ! j) =
              filter is_label (fs ! j) @
              (if labels E \<noteq> None \<and> Suc j = length fs
               then map (snd \<circ> snd) (completed E r si li (row # rest)) else [])"
        by (simp del: completed.simps)
    qed
    with r1 r2 len show ?thesis by simp
  qed
qed


lemma parse_loop_first_success:
  assumes "parse_loop E r si li st rws = Inr st'" and "features st = None"
    and "r \<longrightarrow> smiles st \<noteq> None"
  shows "(completed E r si li rws = [] \<longrightarrow> features st' = None) \<and>
         (\<forall>s f l cs. completed E r si li rws = (s, f, l) # cs \<longrightarrow>
            (\<exists>fs. features st' = Some fs \<and>
                  length fs = arity f + (if labels E \<noteq> None then 1 else 0) \<and>
                  (labels E \<noteq> None \<longrightarrow>
                     filter is_label (last fs) = map (snd \<circ> snd) ((s, f, l) # cs))))"
  using assms
proof (induction rws arbitrary: st)
  case Nil
  then show ?case by simp
next
  case (Cons row rest)
  from parse_loop_Cons_Inr [OF Cons.prems(1)] obtain st1 where
    s: "step E r si li st row = Inr st1" and l: "parse_loop E r si li st1 rest = Inr st'"
    by blast
  from step_Inr_cases [OF s Cons.prems(3), of rest]
  show ?case
  proof
    assume a: "completed E r si li (row # rest) = completed E r si li rest \<and>
          features st1 = features st \<and> success_count st1 = success_count st \<and>
          smiles st1 = smiles st"
    with Cons.prems have "features st1 = None" and "r \<longrightarrow> smiles st1 \<noteq> None"
      by simp_all
    moreover from a
    have eq: "completed E r si li (row # rest) = completed E r si li rest" by blast
    ultimately show ?thesis unfolding eq using Cons.IH [OF l] by blast
  next
    assume "\<exists>s f l fs'.
            completed E r si li (row # rest) = (s, f, l) # completed E r si li rest \<and>
            is_label l \<and>
            append_features E
              (case features st of None \<Rightarrow> init_features E f | Some fs \<Rightarrow> fs) f l =
              Inr fs' \<and>
            features st1 = Some fs' \<and> success_count st1 = Suc (success_count st) \<and>
            smiles st1 =
              (if r then map_option (\<lambda>ss. ss @ [s]) (smiles st) else smiles st)"
    then obtain s f lab fs1 where
      c: "completed E r si li (row # rest) = (s, f, lab) # completed E r si li rest"
      and lb: "is_label lab"
      and ap: "append_features E (init_features E f) f lab = Inr fs1"
      and f1: "features st1 = Some fs1"
      and m: "smiles st1 =
              (if r then map_option (\<lambda>ss. ss @ [s]) (smiles st) else smiles st)"
      using Cons.prems(2) by auto
    let ?n = "arity f + (if labels E \<noteq> None then 1 else 0)"
    from m Cons.prems(3) have sm: "r \<longrightarrow> smiles st1 \<noteq> None" by auto
    from append_features_length [OF ap] have len: "length fs1 = ?n"
      by (simp add: init_features_length)
    from parse_loop_labels [OF l f1 sm] obtain fs' where
      r1: "features st' = Some fs'" and r2: "length fs' = length fs1"
      and r3: "\<forall>j<length fs1. filter is_label (fs' ! j) =
              filter is_label (fs1 ! j) @
              (if labels E \<noteq> None \<and> Suc j = length fs1
               then map (snd \<circ> snd) (completed E r si li rest) else [])"
      by blast
    have "labels E \<noteq> None \<longrightarrow>
          filter is_label (last fs') = lab # map (snd \<circ> snd) (completed E r si li rest)"
    proof
      assume lbl: "labels E \<noteq> None"
      with len have pos: "arity f < length fs1" and suc: "Suc (arity f) = length fs1"
        by simp_all
      have i: "arity f < length (init_features E f)"
        using lbl by (simp add: init_features_length)
      have "init_features E f ! arity f = []"
        using i by (simp add: init_features_def)
      with append_features_labels [OF ap lb i] lbl
      have "filter is_label (fs1 ! arity f) = [lab]"
        by (simp add: init_features_length)
      with r3 pos suc lbl have "filter is_label (fs' ! arity f) =
          lab # map (snd \<circ> snd) (completed E r si li rest)"
        by simp
      moreover have "length fs' = Suc (arity f)" using r2 suc by simp
      then have "last fs' = fs' ! arity f"
        by (cases "fs' = []") (simp_all add: last_conv_nth)
      ultimately show "filter is_label (last fs') =
          lab # map (snd \<circ> snd) (completed E r si li rest)" by simp
    qed
    with r1 r2 len c show ?thesis by simp
  qed
qed

text \<open>
  Claim C8. Run the loop from the start over any rows, without an exception leaving it.
  As long as no record has succeeded, \<^verbatim>\<open>features\<close> is still \<^verbatim>\<open>None\<close>. Once a record has
  succeeded, the number of slots is the one the first successful record gave: the
  length \<open>N\<close> of its tuple of features, or 1 if its features are no tuple, plus one
  when labels are configured, whatever the later records look like. The additional
  slot is the last one: the label objects of the last slot are exactly the labels of
  the successful records, in row order.
\<close>

theorem slots_fixed_by_first_success:
  assumes "parse_loop E r si li (loop_init (begin_parse p r)) rws = Inr st"
  shows "(completed E r si li rws = [] \<longrightarrow> features st = None) \<and>
         (\<forall>s f l cs. completed E r si li rws = (s, f, l) # cs \<longrightarrow>
            (\<exists>fs. features st = Some fs \<and>
                  length fs = arity f + (if labels E \<noteq> None then 1 else 0) \<and>
                  (labels E \<noteq> None \<longrightarrow>
                     filter is_label (last fs) = map (snd \<circ> snd) ((s, f, l) # cs))))"
  using parse_loop_first_success [OF assms]
  by (simp add: loop_init_def begin_parse_def)


theorem slots_fixed_by_first_success_witness:
  "parse_loop demo False 0 [1] (loop_init (begin_parse (init_parser []) False))
     (rows demo_table) =
     Inr \<lparr>smiles = None, logged = [],
          features = Some [[Feature 3, Feature 3, Feature 3],
                           [RawLabels [''1''], RawLabels [''1''], RawLabels [''1'']]],
          fail_count = 2, success_count = 3\<rparr> \<and>
   completed demo False 0 [1] (rows demo_table) =
     [(''CCO'', Tuple [3], RawLabels [''1'']), (''C#N'', Tuple [3], RawLabels [''1'']),
      (''CCO'', Tuple [3], RawLabels [''1''])] \<and>
   length [[Feature 3, Feature 3, Feature 3],
           [RawLabels [''1''], RawLabels [''1''], RawLabels [''1'']] :: (string, nat) obj list] =
     arity (Tuple [3 :: nat]) + 1"
proof -
  let ?fs = "[[Feature 3, Feature 3, Feature 3],
              [RawLabels [''1''], RawLabels [''1''], RawLabels [''1'']]]
             :: (string, nat) obj list list"
  let ?S = "\<lparr>smiles = None, logged = [], features = Some ?fs,
            fail_count = 2, success_count = 3\<rparr> :: (string, nat) loop_state"
  have h: "parse_loop demo False 0 [1] (loop_init (begin_parse (init_parser []) False))
     (rows demo_table) = Inr ?S"
    by (simp add: run_defs demo_def demo_table_def)
  have c: "completed demo False 0 [1] (rows demo_table) =
     [(''CCO'', Tuple [3], RawLabels [''1'']), (''C#N'', Tuple [3], RawLabels [''1'']),
      (''CCO'', Tuple [3], RawLabels [''1''])]"
    by (simp add: run_defs demo_def demo_table_def)
  from slots_fixed_by_first_success [OF h] c
  have "\<exists>fs. features ?S = Some fs \<and>
      length fs = arity (Tuple [3 :: nat]) + (if labels demo \<noteq> None then 1 else 0)"
    by blast
  then have "length ?fs = arity (Tuple [3 :: nat]) + 1"
    by (simp add: demo_def)
  with h c show ?thesis by blast
qed

subsection \<open>The arrays of the result\<close>

lemma filter_same_length:
  "length (filter P xs) = length xs \<Longrightarrow> filter P xs = xs"
proof (induction xs)
  case Nil
  then show ?case by simp
next
  case (Cons x xs)
  show ?case
  proof (cases "P x")
    case True
    with Cons show ?thesis by simp
  next
    case False
    with Cons.prems have "length (filter P xs) = Suc (length xs)" by simp
    with length_filter_le [of P xs] show ?thesis by simp
  qed
qed

lemma append_features_uniform:
  assumes "append_features E fs f l = Inr fs'"
    and "length fs = arity f + (if labels E \<noteq> None then 1 else 0)"
    and "\<forall>x\<in>set fs. length x = n"
  shows "\<forall>x\<in>set fs'. length x = Suc n"
proof
  fix x assume "x \<in> set fs'"
  then obtain j where j': "j < length fs'" and x: "x = fs' ! j"
    by (auto simp: in_set_conv_nth)
  from append_features_length [OF assms(1)] j' have j: "j < length fs" by simp
  from append_features_slot [OF assms(1) j] obtain vs where
    "fs' ! j = fs ! j @ map Feature vs @
           (if labels E \<noteq> None \<and> Suc j = length fs then [l] else [])"
    and "length vs = (if j < arity f then 1 else 0)"
    by blast
  moreover from assms(3) j have "length (fs ! j) = n" by simp
  ultimately show "length x = Suc n"
    using x j assms(2) by (auto split: if_splits)
qed

lemma parse_loop_aligned:
  assumes "parse_loop E r si li st rws = Inr st'" and "r \<longrightarrow> smiles st \<noteq> None"
    and "\<forall>(s, f, l) \<in> set (completed E r si li rws). arity f = n"
    and "features st = None \<longrightarrow> success_count st = 0"
    and "\<forall>fs. features st = Some fs \<longrightarrow>
           length fs = n + (if labels E \<noteq> None then 1 else 0) \<and>
           (\<forall>x\<in>set fs. length x = success_count st)"
  shows "\<forall>fs. features st' = Some fs \<longrightarrow>
           length fs = n + (if labels E \<noteq> None then 1 else 0) \<and>
           (\<forall>x\<in>set fs. length x = success_count st')"
  using assms
proof (induction rws arbitrary: st)
  case Nil
  then show ?case by simp
next
  case (Cons row rest)
  from parse_loop_Cons_Inr [OF Cons.prems(1)] obtain st1 where
    s: "step E r si li st row = Inr st1" and l: "parse_loop E r si li st1 rest = Inr st'"
    by blast
  from step_Inr_cases [OF s Cons.prems(2), of rest]
  show ?case
  proof
    assume a: "completed E r si li (row # rest) = completed E r si li rest \<and>
          features st1 = features st \<and> success_count st1 = success_count st \<and>
          smiles st1 = smiles st"
    then have eq: "completed E r si li (row # rest) = completed E r si li rest" by blast
    from a Cons.prems(2) have 1: "r \<longrightarrow> smiles st1 \<noteq> None" by simp
    from Cons.prems(3) have 2: "\<forall>(s, f, l) \<in> set (completed E r si li rest). arity f = n"
      unfolding eq .
    from a Cons.prems(4) have 3: "features st1 = None \<longrightarrow> success_count st1 = 0" by simp
    from a Cons.prems(5) have 4: "\<forall>fs. features st1 = Some fs \<longrightarrow>
           length fs = n + (if labels E \<noteq> None then 1 else 0) \<and>
           (\<forall>x\<in>set fs. length x = success_count st1)" by simp
    from Cons.IH [OF l 1 2 3 4] show ?thesis .
  next
    assume "\<exists>s f l fs'.
            completed E r si li (row # rest) = (s, f, l) # completed E r si li rest \<and>
            is_label l \<and>
            append_features E
              (case features st of None \<Rightarrow> init_features E f | Some fs \<Rightarrow> fs) f l =
              Inr fs' \<and>
            features st1 = Some fs' \<and> success_count st1 = Suc (success_count st) \<and>
            smiles st1 =
              (if r then map_option (\<lambda>ss. ss @ [s]) (smiles st) else smiles st)"
    then obtain s f lab fs1 where
      c: "completed E r si li (row # rest) = (s, f, lab) # completed E r si li rest"
      and ap: "append_features E
              (case features st of None \<Rightarrow> init_features E f | Some fs \<Rightarrow> fs) f lab =
              Inr fs1"
      and f1: "features st1 = Some fs1"
      and sc: "success_count st1 = Suc (success_count st)"
      and m: "smiles st1 =
              (if r then map_option (\<lambda>ss. ss @ [s]) (smiles st) else smiles st)"
      by blast
    let ?fs0 = "case features st of None \<Rightarrow> init_features E f | Some fs \<Rightarrow> fs"
    from Cons.prems(3) c have ar: "arity f = n"
      and 2: "\<forall>(s, f, l) \<in> set (completed E r si li rest). arity f = n"
      by simp_all
    have len0: "length ?fs0 = arity f + (if labels E \<noteq> None then 1 else 0)"
      using Cons.prems(5) ar by (cases "features st") (simp_all add: init_features_length)
    have all0: "\<forall>x\<in>set ?fs0. length x = success_count st"
      using Cons.prems(4) Cons.prems(5)
      by (cases "features st") (simp_all add: init_features_def)
    from append_features_uniform [OF ap len0 all0] sc
    have all1: "\<forall>x\<in>set fs1. length x = success_count st1" by simp
    from append_features_length [OF ap] len0 ar
    have len1: "length fs1 = n + (if labels E \<noteq> None then 1 else 0)" by simp
    from m Cons.prems(2) have 1: "r \<longrightarrow> smiles st1 \<noteq> None" by auto
    from f1 have 3: "features st1 = None \<longrightarrow> success_count st1 = 0" by simp
    from f1 len1 all1 have 4: "\<forall>fs. features st1 = Some fs \<longrightarrow>
           length fs = n + (if labels E \<noteq> None then 1 else 0) \<and>
           (\<forall>x\<in>set fs. length x = success_count st1)" by simp
    from Cons.IH [OF l 1 2 3 4] show ?thesis .
  qed
qed


text \<open>
  Claim C9. Let \<^verbatim>\<open>parse\<close> be called on a molecular preprocessor without
  \<^verbatim>\<open>postprocess_fn\<close> and return a dataset, and let every successfully processed record
  have as many feature values as the first one. Then the dataset is
  \<^verbatim>\<open>NumpyTupleDataset(*result)\<close> for a tuple \<open>ret\<close> of arrays that all have leading
  dimension \<open>success_count\<close>, the number of successfully processed records; and when
  labels are configured, the last array of the tuple holds the labels of these records,
  in row order, and nothing else.
\<close>

theorem result_arrays_aligned:
  fixes E :: "('c, 'm, 'v, 'd) env"
  assumes "is_MolPreprocessor E" and "postprocess_fn E = None"
    and "parse E p filepath r = (Inr d, p')"
    and "\<forall>(s, f, l) \<in> set (successful_records E r filepath).
           arity f = arity (fst (snd (hd (successful_records E r filepath))))"
  shows "\<exists>ret st.
           parse_mol E (begin_parse p r) filepath r = Inr (ret, st) \<and>
           NumpyTupleDataset E (map NonTuple ret) = Inr d \<and>
           success_count st = length (successful_records E r filepath) \<and>
           (\<forall>a\<in>set ret. leading_dim a = success_count st) \<and>
           (labels E \<noteq> None \<longrightarrow>
              ret \<noteq> [] \<and>
              elems (last ret) =
                map (Some \<circ> snd \<circ> snd) (successful_records E r filepath))"
proof -
  let ?n = "arity (fst (snd (hd (successful_records E r filepath))))"
  let ?lbl = "if labels E \<noteq> None then 1 else 0 :: nat"
  from assms(1,3) obtain ret st where
    pm: "parse_mol E (begin_parse p r) filepath r = Inr (ret, st)"
    and pk: "package E (TupleResult ret) = Inr d"
    by (auto simp: parse_def Let_def split: sum.splits prod.splits)
  from pk assms(2) have ds: "NumpyTupleDataset E (map NonTuple ret) = Inr d"
    by (simp add: package_def)
  from parse_mol_Inr [OF pm] obtain df :: "'c table" and si li st0 fs where
    lp: "parse_loop E r si li (loop_init (begin_parse p r)) (rows df) = Inr st0"
    and sr: "successful_records E r filepath = completed E r si li (rows df)"
    and fs: "features st0 = Some fs" and cv: "convert_all E fs = Inr ret"
    and st: "st = st0\<lparr>logged := logged st0 @
              [Info_finished (fail_count st0) (success_count st0) (length (rows df))]\<rparr>"
    by blast
  let ?st = "loop_init (begin_parse p r) :: ('c, 'v) loop_state"
  have i1: "r \<longrightarrow> smiles ?st \<noteq> None" by (simp add: loop_init_def begin_parse_def)
  have i2: "features ?st = None" and i3: "success_count ?st = 0"
    by (simp_all add: loop_init_def)
  from parse_loop_smiles [OF lp i1] i3 sr
  have cnt: "success_count st0 = length (successful_records E r filepath)" by simp
  from assms(4) have un: "\<forall>(s, f, l) \<in> set (completed E r si li (rows df)). arity f = ?n"
    unfolding sr .
  from parse_loop_aligned [OF lp i1 un] i2 i3 fs
  have len: "length fs = ?n + ?lbl" and al: "\<forall>x\<in>set fs. length x = success_count st0"
    by simp_all
  have dims: "\<forall>a\<in>set ret. leading_dim a = success_count st0"
  proof
    fix a assume "a \<in> set ret"
    then obtain i where i: "i < length ret" and a: "a = ret ! i"
      by (auto simp: in_set_conv_nth)
    from convert_all_length [OF cv] i have i': "i < length fs" by simp
    from convert_feature_Inr [OF convert_all_nth [OF cv i']] a
    have "leading_dim a = length (fs ! i)" by simp
    with al i' show "leading_dim a = success_count st0" by simp
  qed
  have lab: "labels E \<noteq> None \<longrightarrow>
        ret \<noteq> [] \<and>
        elems (last ret) = map (Some \<circ> snd \<circ> snd) (successful_records E r filepath)"
  proof
    assume lbl: "labels E \<noteq> None"
    with len have ne: "fs \<noteq> []" by auto
    with convert_all_length [OF cv] have rne: "ret \<noteq> []" by auto
    from parse_loop_first_success [OF lp i2 i1] fs
    obtain s f l cs where c: "completed E r si li (rows df) = (s, f, l) # cs"
      by (cases "completed E r si li (rows df)") auto
    with parse_loop_first_success [OF lp i2 i1] fs lbl
    have fl: "filter is_label (last fs) = map (snd \<circ> snd) (completed E r si li (rows df))"
      by auto
    from al ne have "length (last fs) = success_count st0" by simp
    with cnt sr fl have "length (filter is_label (last fs)) = length (last fs)" by simp
    from filter_same_length [OF this] fl sr
    have lf: "last fs = map (snd \<circ> snd) (successful_records E r filepath)" by simp
    have "length fs - 1 < length fs" using ne by (cases fs) simp_all
    from convert_feature_Inr [OF convert_all_nth [OF cv this]]
    have "elems (ret ! (length fs - 1)) = map Some (fs ! (length fs - 1))" by simp
    with ne rne convert_all_length [OF cv]
    have "elems (last ret) = map Some (last fs)" by (simp add: last_conv_nth)
    with lf rne show "ret \<noteq> [] \<and>
        elems (last ret) = map (Some \<circ> snd \<circ> snd) (successful_records E r filepath)"
      by simp
  qed
  from st have "success_count st = success_count st0" by simp
  with pm ds cnt dims lab show ?thesis by auto
qed


theorem result_arrays_aligned_witness:
  "parse demo (init_parser []) ''demo.csv'' False =
     (Inr [NonTuple (NDArray Inferred [Some (Feature 3), Some (Feature 3), Some (Feature 3)]),
           NonTuple (NDArray Inferred [Some (RawLabels [''1'']), Some (RawLabels [''1'']),
                                       Some (RawLabels [''1''])])],
      \<lparr>smiles = None, logged = [Info_finished 2 3 5]\<rparr>) \<and>
   length (successful_records demo False ''demo.csv'') = 3"
proof -
  let ?d = "[NonTuple (NDArray Inferred [Some (Feature 3), Some (Feature 3), Some (Feature 3)]),
           NonTuple (NDArray Inferred [Some (RawLabels [''1'']), Some (RawLabels [''1'']),
                                       Some (RawLabels [''1''])])]
           :: (string, nat) obj ndarray result list"
  have h1: "is_MolPreprocessor demo" and h2: "postprocess_fn demo = None"
    by (simp_all add: demo_def)
  have h3: "parse demo (init_parser []) ''demo.csv'' False =
     (Inr ?d, \<lparr>smiles = None, logged = [Info_finished 2 3 5]\<rparr>)"
    by (simp add: run_defs parse_defs demo_def demo_table_def)
  have sr: "successful_records demo False ''demo.csv'' =
     [(''CCO'', Tuple [3], RawLabels [''1'']), (''C#N'', Tuple [3], RawLabels [''1'']),
      (''CCO'', Tuple [3], RawLabels [''1''])]"
    by (simp add: successful_records_def run_defs parse_defs demo_def demo_table_def)
  have h4: "\<forall>(s, f, l) \<in> set (successful_records demo False ''demo.csv'').
           arity f = arity (fst (snd (hd (successful_records demo False ''demo.csv''))))"
    unfolding sr by simp
  from result_arrays_aligned [OF h1 h2 h3 h4] obtain ret st where
    "parse_mol demo (begin_parse (init_parser []) False) ''demo.csv'' False = Inr (ret, st)"
    and "success_count st = length (successful_records demo False ''demo.csv'')"
    and "\<forall>a\<in>set ret. leading_dim a = success_count st"
    by blast
  with h3 sr show ?thesis by simp
qed

subsection \<open>\<^verbatim>\<open>get_smiles\<close> after a sequence of calls\<close>

lemma step_Inl_smiles:
  assumes "step E r si li st row = Inl (e, p')"
  shows "(smiles st \<noteq> None \<longrightarrow> smiles p' \<noteq> None) \<and> (\<not> r \<longrightarrow> smiles p' = smiles st)"
  using assms
  by (auto simp: step_def on_outcome_def except_handler_def after_try_def Let_def
        parser.truncate_def
      split: sum.splits outcome.splits if_splits option.splits)

lemma step_Inr_smiles:
  assumes "step E r si li st row = Inr st'"
  shows "(smiles st \<noteq> None \<longrightarrow> smiles st' \<noteq> None) \<and> (\<not> r \<longrightarrow> smiles st' = smiles st)"
  using assms
  by (auto simp: step_def on_outcome_def except_handler_def after_try_def Let_def
      split: sum.splits outcome.splits if_splits option.splits)

lemma parse_loop_keeps_smiles:
  "(parse_loop E r si li st rws = Inl (e, p') \<longrightarrow>
      (smiles st \<noteq> None \<longrightarrow> smiles p' \<noteq> None) \<and> (\<not> r \<longrightarrow> smiles p' = smiles st)) \<and>
   (parse_loop E r si li st rws = Inr st' \<longrightarrow>
      (smiles st \<noteq> None \<longrightarrow> smiles st' \<noteq> None) \<and> (\<not> r \<longrightarrow> smiles st' = smiles st))"
proof (induction rws arbitrary: st)
  case Nil
  then show ?case by simp
next
  case (Cons row rest)
  show ?case
  proof (cases "step E r si li st row")
    case (Inl ep)
    with step_Inl_smiles [of E r si li st row "fst ep" "snd ep"] show ?thesis by auto
  next
    case (Inr st1)
    with step_Inr_smiles [OF Inr] Cons.IH [of st1] show ?thesis by auto
  qed
qed

lemma parse_smiles:
  fixes E :: "('c, 'm, 'v, 'd) env"
  shows "(r \<longrightarrow> smiles (snd (parse E p filepath r)) \<noteq> None) \<and>
   (\<not> r \<longrightarrow> smiles (snd (parse E p filepath r)) = smiles p)"
proof (cases "is_MolPreprocessor E")
  case False
  then show ?thesis
    by (auto simp: parse_def Let_def begin_parse_def split: sum.splits)
next
  case True
  let ?p1 = "begin_parse p r"
  have p1: "(r \<longrightarrow> smiles ?p1 \<noteq> None) \<and> (\<not> r \<longrightarrow> smiles ?p1 = smiles p)"
    by (simp add: begin_parse_def)
  have "(r \<longrightarrow> smiles (snd (parse E p filepath r)) \<noteq> None) \<and>
        (\<not> r \<longrightarrow> smiles (snd (parse E p filepath r)) = smiles ?p1)"
  proof (cases "parse_mol E ?p1 filepath r")
    case (Inl ep)
    then obtain e p2 where ep: "parse_mol E ?p1 filepath r = Inl (e, p2)"
      by (cases ep) simp
    then have "(smiles ?p1 \<noteq> None \<longrightarrow> smiles p2 \<noteq> None) \<and> (\<not> r \<longrightarrow> smiles p2 = smiles ?p1)"
      using parse_loop_keeps_smiles [of E r _ _ "loop_init ?p1" _ e p2]
      by (auto simp: parse_mol_def finish_def loop_init_def parser.truncate_def
          split: sum.splits option.splits)
    with ep True p1 show ?thesis by (auto simp: parse_def Let_def)
  next
    case (Inr rs)
    then obtain ret st where rs: "parse_mol E ?p1 filepath r = Inr (ret, st)"
      by (cases rs) simp
    from parse_mol_Inr [OF rs] obtain df :: "'c table" and si li st0 where
      lp: "parse_loop E r si li (loop_init ?p1) (rows df) = Inr st0"
      and st: "st = st0\<lparr>logged := logged st0 @
              [Info_finished (fail_count st0) (success_count st0) (length (rows df))]\<rparr>"
      by blast
    from parse_loop_keeps_smiles [of E r si li "loop_init ?p1" "rows df" _ _ st0] lp st
    have "(smiles ?p1 \<noteq> None \<longrightarrow> smiles st \<noteq> None) \<and> (\<not> r \<longrightarrow> smiles st = smiles ?p1)"
      by (simp add: loop_init_def)
    with rs True p1 show ?thesis by (auto simp: parse_def Let_def parser.truncate_def)
  qed
  with p1 show ?thesis by auto
qed

lemma get_smiles_fst: "fst (get_smiles p) = smiles p"
  by (cases "smiles p") (simp_all add: get_smiles_def)

lemma run_calls_append:
  "run_calls E p (xs @ ys) = run_calls E (run_calls E p xs) ys"
  by (induction xs arbitrary: p) auto

lemma run_calls_no_retain:
  "\<forall>c\<in>set calls. \<not> snd c \<Longrightarrow> smiles (run_calls E p calls) = smiles p"
proof (induction calls arbitrary: p)
  case Nil
  then show ?case by simp
next
  case (Cons c calls)
  obtain f r where c: "c = (f, r)" by (cases c)
  with Cons.prems have "\<not> r" by simp
  with parse_smiles [of r E p f] have "smiles (snd (parse E p f r)) = smiles p" by simp
  with Cons c show ?case by simp
qed

lemma run_calls_smiles_None:
  "smiles (run_calls E p calls) = None \<longleftrightarrow>
     smiles p = None \<and> (\<forall>c\<in>set calls. \<not> snd c)"
proof (induction calls arbitrary: p)
  case Nil
  then show ?case by simp
next
  case (Cons c calls)
  obtain f r where c: "c = (f, r)" by (cases c)
  from parse_smiles [of r E p f] Cons.IH [of "snd (parse E p f r)"] c
  show ?case by (cases r) auto
qed

text \<open>
  Claim C5, as the code has it. \<^verbatim>\<open>parse\<close> assigns \<^verbatim>\<open>self.smiles\<close> only when
  \<^verbatim>\<open>retain_smiles\<close> is set, and nothing puts \<^verbatim>\<open>None\<close> back. So on a parser fresh from
  \<^verbatim>\<open>__init__\<close>, after any sequence of calls of \<^verbatim>\<open>parse\<close> (returning or raising):
  \<^verbatim>\<open>get_smiles\<close> returns a list, and logs nothing, if and only if some call of the
  sequence had \<^verbatim>\<open>retain_smiles\<close> set; otherwise it logs its warning and returns \<^verbatim>\<open>None\<close>.
  The list is the one left by the most recent call that had \<^verbatim>\<open>retain_smiles\<close> set: the
  calls after it, without the flag, leave it as it is.
\<close>

theorem get_smiles_after_calls:
  "((\<exists>c\<in>set calls. snd c) \<longrightarrow>
      (\<exists>ss. get_smiles (run_calls E (init_parser lg) calls) =
              (Some ss, run_calls E (init_parser lg) calls))) \<and>
   ((\<forall>c\<in>set calls. \<not> snd c) \<longrightarrow>
      get_smiles (run_calls E (init_parser lg) calls) =
        (None, (run_calls E (init_parser lg) calls)
                 \<lparr>logged := logged (run_calls E (init_parser lg) calls) @
                    [Warning_smiles_is_None]\<rparr>)) \<and>
   (\<forall>cs f cs'. calls = cs @ (f, True) # cs' \<and> (\<forall>c\<in>set cs'. \<not> snd c) \<longrightarrow>
      fst (get_smiles (run_calls E (init_parser lg) calls)) =
        smiles (snd (parse E (run_calls E (init_parser lg) cs) f True)))"
proof -
  let ?q = "run_calls E (init_parser lg) calls"
  have n: "smiles ?q = None \<longleftrightarrow> (\<forall>c\<in>set calls. \<not> snd c)"
    by (simp add: run_calls_smiles_None init_parser_def)
  have a: "(\<exists>c\<in>set calls. snd c) \<longrightarrow> (\<exists>ss. get_smiles ?q = (Some ss, ?q))"
    using n by (cases "smiles ?q") (auto simp: get_smiles_def)
  have b: "(\<forall>c\<in>set calls. \<not> snd c) \<longrightarrow>
      get_smiles ?q = (None, ?q\<lparr>logged := logged ?q @ [Warning_smiles_is_None]\<rparr>)"
    using n by (auto simp: get_smiles_def)
  have c: "\<forall>cs f cs'. calls = cs @ (f, True) # cs' \<and> (\<forall>c\<in>set cs'. \<not> snd c) \<longrightarrow>
      fst (get_smiles ?q) = smiles (snd (parse E (run_calls E (init_parser lg) cs) f True))"
  proof (intro allI impI)
    fix cs f cs'
    assume h: "calls = cs @ (f, True) # cs' \<and> (\<forall>c\<in>set cs'. \<not> snd c)"
    let ?p1 = "snd (parse E (run_calls E (init_parser lg) cs) f True)"
    from h have "?q = run_calls E ?p1 cs'" by (simp add: run_calls_append)
    with h run_calls_no_retain [of cs' E ?p1] have "smiles ?q = smiles ?p1" by simp
    then show "fst (get_smiles ?q) = smiles ?p1"
      by (simp add: get_smiles_fst)
  qed
  from a b c show ?thesis by blast
qed


theorem get_smiles_after_calls_witness:
  "get_smiles (run_calls demo (init_parser []) []) =
     (None, \<lparr>smiles = None, logged = [Warning_smiles_is_None]\<rparr>) \<and>
   get_smiles (run_calls demo (init_parser [])
       [(''demo.csv'', True), (''failing.csv'', False)]) =
     (Some [''CCO'', ''CCO''],
      \<lparr>smiles = Some [''CCO'', ''CCO''],
       logged = [Warning_parse AssertionError, Info_traceback AssertionError,
                 Info_finished 3 2 5]\<rparr>)"
proof -
  have p1: "parse demo (init_parser []) ''demo.csv'' True =
     (Inr [NonTuple (NDArray Inferred [Some (Feature 3), Some (Feature 3)]),
           NonTuple (NDArray Inferred [Some (RawLabels [''1'']), Some (RawLabels [''1''])])],
      \<lparr>smiles = Some [''CCO'', ''CCO''],
       logged = [Warning_parse AssertionError, Info_traceback AssertionError,
                 Info_finished 3 2 5]\<rparr>)"
    by (simp add: run_defs parse_defs demo_def demo_table_def)
  have p2: "parse demo \<lparr>smiles = Some [''CCO'', ''CCO''],
       logged = [Warning_parse AssertionError, Info_traceback AssertionError,
                 Info_finished 3 2 5]\<rparr> ''failing.csv'' False =
     (Inl TypeError, \<lparr>smiles = Some [''CCO'', ''CCO''],
       logged = [Warning_parse AssertionError, Info_traceback AssertionError,
                 Info_finished 3 2 5]\<rparr>)"
    by (simp add: run_defs parse_defs demo_def failing_table_def)
  have a: "\<forall>c\<in>set ([] :: (string \<times> bool) list). \<not> snd c" by simp
  have b: "\<exists>c\<in>set [(''demo.csv'', True), (''failing.csv'', False)]. snd c" by simp
  from get_smiles_after_calls [of "[]" demo "[]"] a
  have "get_smiles (run_calls demo (init_parser []) []) =
     (None, \<lparr>smiles = None, logged = [Warning_smiles_is_None]\<rparr>)"
    by (simp add: init_parser_def)
  moreover
  from get_smiles_after_calls [of "[(''demo.csv'', True), (''failing.csv'', False)]" demo "[]"] b
  have "\<exists>ss. get_smiles (run_calls demo (init_parser [])
       [(''demo.csv'', True), (''failing.csv'', False)]) =
     (Some ss, run_calls demo (init_parser [])
       [(''demo.csv'', True), (''failing.csv'', False)])"
    by blast
  then have "get_smiles (run_calls demo (init_parser [])
       [(''demo.csv'', True), (''failing.csv'', False)]) =
     (Some [''CCO'', ''CCO''],
      \<lparr>smiles = Some [''CCO'', ''CCO''],
       logged = [Warning_parse AssertionError, Info_traceback AssertionError,
                 Info_finished 3 2 5]\<rparr>)"
    by (simp add: p1 p2 get_smiles_def)
  ultimately show ?thesis by blast
qed

text \<open>
  Against claim C5 as stated: the most recent call has \<^verbatim>\<open>retain_smiles=False\<close>, and
  \<^verbatim>\<open>get_smiles\<close> still returns a list and logs no warning. The list is the one of the
  first call, with two entries, while the second call had three successes.
\<close>

theorem get_smiles_most_recent_counterexample:
  "get_smiles (run_calls demo (init_parser [])
       [(''demo.csv'', True), (''demo.csv'', False)]) =
     (Some [''CCO'', ''CCO''],
      \<lparr>smiles = Some [''CCO'', ''CCO''],
       logged = [Warning_parse AssertionError, Info_traceback AssertionError,
                 Info_finished 3 2 5, Info_finished 2 3 5]\<rparr>)"
proof -
  have p1: "parse demo (init_parser []) ''demo.csv'' True =
     (Inr [NonTuple (NDArray Inferred [Some (Feature 3), Some (Feature 3)]),
           NonTuple (NDArray Inferred [Some (RawLabels [''1'']), Some (RawLabels [''1''])])],
      \<lparr>smiles = Some [''CCO'', ''CCO''],
       logged = [Warning_parse AssertionError, Info_traceback AssertionError,
                 Info_finished 3 2 5]\<rparr>)"
    by (simp add: run_defs parse_defs demo_def demo_table_def)
  have p2: "snd (parse demo \<lparr>smiles = Some [''CCO'', ''CCO''],
       logged = [Warning_parse AssertionError, Info_traceback AssertionError,
                 Info_finished 3 2 5]\<rparr> ''demo.csv'' False) =
     \<lparr>smiles = Some [''CCO'', ''CCO''],
       logged = [Warning_parse AssertionError, Info_traceback AssertionError,
                 Info_finished 3 2 5, Info_finished 2 3 5]\<rparr>"
    by (simp add: run_defs parse_defs demo_def demo_table_def)
  show ?thesis by (simp add: p1 p2 get_smiles_def)
qed

end
